theory Spec2Isabelle
  imports Complex_Main "HOL-Library.Sublist"
begin

unbundle bit_operations_syntax

section \<open>Python values\<close>

text \<open>
  A shallow embedding of \<^verbatim>\<open>llm_ops/app/vllm_worker.py\<close>. A Python \<^verbatim>\<open>str\<close> is a list
  of code points; \<^verbatim>\<open>bytes\<close> and the ASCII text written by \<^verbatim>\<open>json.dumps\<close> are HOL
  strings (lists of 8-bit characters). Keys of JSON objects are the ASCII literals the
  code reads, so they are HOL strings as well.
\<close>

type_synonym pystr = "nat list"

definition py_str :: "string \<Rightarrow> pystr" where
  "py_str = map of_char"

text \<open>
  A Python \<^verbatim>\<open>float\<close>: a finite value, an infinity or NaN. The code only compares floats
  and takes \<^verbatim>\<open>max\<close>; no arithmetic is done on them, so a finite double is represented
  by the real number it denotes (every double is one of these values; zero and minus
  zero, which compare equal, are both \<open>Finite 0\<close>).
\<close>

datatype pyfloat = Finite real | PosInf | NegInf | NaN

fun float_lt :: "pyfloat \<Rightarrow> pyfloat \<Rightarrow> bool" where
  "float_lt NaN b = False"
| "float_lt a NaN = False"
| "float_lt (Finite x) (Finite y) = (x < y)"
| "float_lt (Finite x) PosInf = True"
| "float_lt (Finite x) NegInf = False"
| "float_lt PosInf b = False"
| "float_lt NegInf NegInf = False"
| "float_lt NegInf b = True"

definition float_le :: "pyfloat \<Rightarrow> pyfloat \<Rightarrow> bool" where
  "float_le a b = (float_lt a b \<or> (a = b \<and> a \<noteq> NaN))"

text \<open>\<^verbatim>\<open>max(a, b)\<close> keeps its first argument unless the second compares greater.\<close>

definition py_max :: "pyfloat \<Rightarrow> pyfloat \<Rightarrow> pyfloat" where
  "py_max a b = (if float_lt a b then b else a)"

text \<open>The double written \<^verbatim>\<open>1e-5\<close> in the source, exactly.\<close>

definition float_1e_5 :: pyfloat where
  "float_1e_5 = Finite (5902958103587057 / 2 ^ 69)"

datatype error =
    KeyError | TypeError | ValueError | OverflowError | AttributeError
  | UnboundLocalError | CancelledError | JSONDecodeError | UnicodeDecodeError
  | EngineError

datatype pyval =
    PNone
  | PBool bool
  | PInt int
  | PFloat pyfloat
  | PStr pystr
  | PList "pyval list"
  | PDict "(string \<times> pyval) list"

type_synonym params = "string \<rightharpoonup> pyval"

text \<open>\<^verbatim>\<open>d.get(k, default)\<close>\<close>

definition py_get :: "params \<Rightarrow> string \<Rightarrow> pyval \<Rightarrow> pyval" where
  "py_get d k dflt = (case d k of None \<Rightarrow> dflt | Some v \<Rightarrow> v)"

text \<open>\<^verbatim>\<open>v[k]\<close> for a string key: only a dict can be subscripted by one.\<close>

fun py_getitem :: "pyval \<Rightarrow> string \<Rightarrow> error + pyval" where
  "py_getitem (PDict kvs) k = (case map_of kvs k of None \<Rightarrow> Inl KeyError | Some v \<Rightarrow> Inr v)"
| "py_getitem v k = Inl TypeError"

text \<open>Truth value testing, as \<^verbatim>\<open>if v:\<close> and \<^verbatim>\<open>v or w\<close> do it.\<close>

fun py_truthy :: "pyval \<Rightarrow> bool" where
  "py_truthy PNone = False"
| "py_truthy (PBool b) = b"
| "py_truthy (PInt i) = (i \<noteq> 0)"
| "py_truthy (PFloat f) = (f \<noteq> Finite 0)"
| "py_truthy (PStr s) = (s \<noteq> [])"
| "py_truthy (PList xs) = (xs \<noteq> [])"
| "py_truthy (PDict kvs) = (kvs \<noteq> [])"

text \<open>Iteration (\<^verbatim>\<open>for x in v\<close>): a list gives its elements, a string its characters, a
  dict its keys; nothing else the JSON body can hold is iterable.\<close>

fun py_iter :: "pyval \<Rightarrow> error + pyval list" where
  "py_iter (PList xs) = Inr xs"
| "py_iter (PStr s) = Inr (map (\<lambda>c. PStr [c]) s)"
| "py_iter (PDict kvs) = Inr (map (\<lambda>kv. PStr (py_str (fst kv))) kvs)"
| "py_iter v = Inl TypeError"

text \<open>Lists and dicts are not hashable, so they cannot be members of a set.\<close>

fun hashable :: "pyval \<Rightarrow> bool" where
  "hashable (PList xs) = False"
| "hashable (PDict kvs) = False"
| "hashable v = True"

section \<open>Collaborators of the worker\<close>

text \<open>
  \<^verbatim>\<open>SamplingParams\<close> as the worker fills it (lines 96 to 103). \<^verbatim>\<open>stop=list(stop)\<close> lists
  a set in an order Python does not fix, so the field is the set.
\<close>

record sampling_params =
  sp_n :: nat
  sp_temperature :: pyfloat
  sp_top_p :: pyfloat
  sp_use_beam_search :: bool
  sp_stop :: "pyval set"
  sp_max_tokens :: pyval

text \<open>A \<^verbatim>\<open>RequestOutput\<close> of the engine: its \<^verbatim>\<open>prompt\<close> and the \<^verbatim>\<open>text\<close> of each of its
  \<^verbatim>\<open>outputs\<close>.\<close>

record completion_output =
  co_text :: pystr

record request_output =
  ro_prompt :: pystr
  ro_outputs :: "completion_output list"

text \<open>The conversation object \<^verbatim>\<open>get_conversation_prompt\<close> fills.\<close>

record conv =
  conv_roles :: "pystr \<times> pystr"
  conv_system_message :: pyval
  conv_messages :: "(pystr \<times> pyval) list"

text \<open>
  What the module takes from outside, as one record: the tokenizer
  (\<^verbatim>\<open>eos_token_id\<close>, \<^verbatim>\<open>decode\<close>), the engine (\<^verbatim>\<open>engine.generate\<close> as the finite
  sequence of outputs it yields and the exception, if any, that ends it; an exception of
  the \<^verbatim>\<open>SamplingParams\<close> constructor is counted as one raised before the first output),
  the command line's \<^verbatim>\<open>--limit-worker-concurrency\<close>, the conversation templates, and the
  two cases of \<^verbatim>\<open>float()\<close> that need CPython's number parser or rounding.
\<close>

record env =
  eos_token_id :: "int option"
  tokenizer_decode :: "pyval \<Rightarrow> error + pystr"
  engine_generate :: "pyval \<Rightarrow> sampling_params \<Rightarrow> pyval \<Rightarrow> request_output list \<times> error option"
  limit_worker_concurrency :: nat
  get_conversation_template :: "pyval \<Rightarrow> error + conv"
  get_prompt :: "conv \<Rightarrow> error + pystr"
  float_of_str :: "pystr \<Rightarrow> error + pyfloat"
  float_of_long :: "int \<Rightarrow> error + pyfloat"

text \<open>\<^verbatim>\<open>float(v)\<close>. An int of magnitude at most \<open>2^53\<close> converts exactly.\<close>

fun py_float :: "env \<Rightarrow> pyval \<Rightarrow> error + pyfloat" where
  "py_float E (PFloat f) = Inr f"
| "py_float E (PInt i) =
     (if \<bar>i\<bar> \<le> 2 ^ 53 then Inr (Finite (of_int i)) else float_of_long E i)"
| "py_float E (PBool b) = Inr (Finite (if b then 1 else 0))"
| "py_float E (PStr s) = float_of_str E s"
| "py_float E v = Inl TypeError"

section \<open>generate_stream: the sampling configuration\<close>

text \<open>Lines 82 to 86 (\<^verbatim>\<open># Handle stop_str\<close>).\<close>

fun handle_stop_str :: "pyval \<Rightarrow> error + pyval set" where
  "handle_stop_str (PStr s) = (if s \<noteq> [] then Inr {PStr s} else Inr {})"
| "handle_stop_str (PList xs) =
     (if xs \<noteq> [] then (if list_all hashable xs then Inr (set xs) else Inl TypeError)
      else Inr {})"
| "handle_stop_str v = Inr {}"

text \<open>Lines 76 to 78: \<^verbatim>\<open>stop_token_ids = params.get("stop_token_ids", None) or []\<close>, then
  the append of the tokenizer's end-of-sequence id, which only a list supports.\<close>

definition get_stop_token_ids :: "env \<Rightarrow> params \<Rightarrow> error + pyval" where
  "get_stop_token_ids E params =
     (let v = py_get params ''stop_token_ids'' PNone;
          stop_token_ids = (if py_truthy v then v else PList [])
      in case eos_token_id E of
           None \<Rightarrow> Inr stop_token_ids
         | Some eos \<Rightarrow>
             (case stop_token_ids of
                PList xs \<Rightarrow> Inr (PList (xs @ [PInt eos]))
              | _ \<Rightarrow> Inl AttributeError))"

text \<open>Lines 88 to 90: each id that is not \<^verbatim>\<open>None\<close> is decoded and added to the set.\<close>

fun add_stop_tokens :: "env \<Rightarrow> pyval list \<Rightarrow> pyval set \<Rightarrow> error + pyval set" where
  "add_stop_tokens E [] stop = Inr stop"
| "add_stop_tokens E (tid # tids) stop =
     (if tid \<noteq> PNone then
        (case tokenizer_decode E tid of
           Inl e \<Rightarrow> Inl e
         | Inr s \<Rightarrow> add_stop_tokens E tids (insert (PStr s) stop))
      else add_stop_tokens E tids stop)"

text \<open>Lines 93 to 95 (\<^verbatim>\<open># make sampling params in vllm\<close>).\<close>

definition normalize_top_p :: "pyfloat \<Rightarrow> pyfloat \<Rightarrow> pyfloat" where
  "normalize_top_p temperature top_p =
     (let top_p = py_max top_p float_1e_5
      in if float_le temperature float_1e_5 then Finite 1 else top_p)"

text \<open>
  Lines 70 to 103 of \<^verbatim>\<open>generate_stream\<close>, in the order the source evaluates them: the
  values the loop below needs (\<^verbatim>\<open>context\<close>, \<^verbatim>\<open>request_id\<close>, the \<^verbatim>\<open>SamplingParams\<close>,
  \<^verbatim>\<open>echo\<close>), or the first exception raised.
\<close>

definition sampling_setup :: "env \<Rightarrow> params \<Rightarrow> error + (pyval \<times> pyval \<times> sampling_params \<times> pyval)" where
  "sampling_setup E params =
     (case params ''prompt'' of None \<Rightarrow> Inl KeyError | Some context \<Rightarrow>
     (case params ''request_id'' of None \<Rightarrow> Inl KeyError | Some request_id \<Rightarrow>
     (case py_float E (py_get params ''temperature'' (PFloat (Finite 1))) of
        Inl e \<Rightarrow> Inl e | Inr temperature \<Rightarrow>
     (case py_float E (py_get params ''top_p'' (PFloat (Finite 1))) of
        Inl e \<Rightarrow> Inl e | Inr top_p \<Rightarrow>
     (let max_new_tokens = py_get params ''max_new_tokens'' (PInt 256);
          stop_str = py_get params ''stop'' PNone
      in
     (case get_stop_token_ids E params of Inl e \<Rightarrow> Inl e | Inr stop_token_ids \<Rightarrow>
     (let echo = py_get params ''echo'' (PBool True) in
     (case handle_stop_str stop_str of Inl e \<Rightarrow> Inl e | Inr stop \<Rightarrow>
     (case py_iter stop_token_ids of Inl e \<Rightarrow> Inl e | Inr tids \<Rightarrow>
     (case add_stop_tokens E tids stop of Inl e \<Rightarrow> Inl e | Inr stop \<Rightarrow>
      Inr (context, request_id,
           \<lparr>sp_n = 1, sp_temperature = temperature,
            sp_top_p = normalize_top_p temperature top_p,
            sp_use_beam_search = False, sp_stop = stop,
            sp_max_tokens = max_new_tokens\<rparr>,
           echo)))))))))))"

section \<open>The wire format\<close>

text \<open>
  \<^verbatim>\<open>json.dumps\<close> with its defaults (\<^verbatim>\<open>ensure_ascii=True\<close>) writes a string through
  \<^verbatim>\<open>encode_basestring_ascii\<close>: a quote, a backslash and every code point outside
  \<open>0x20 .. 0x7E\<close> is escaped, code points from \<open>0x10000\<close> as a surrogate pair.
\<close>

definition hex_digit :: "nat \<Rightarrow> char" where
  "hex_digit d = (if d < 10 then char_of (48 + d) else char_of (87 + d))"

text \<open>\<^verbatim>\<open>'{0:04x}'.format(n)\<close> for \<open>n < 0x10000\<close>\<close>

definition format_04x :: "nat \<Rightarrow> string" where
  "format_04x n =
     [hex_digit (n div 4096 mod 16), hex_digit (n div 256 mod 16),
      hex_digit (n div 16 mod 16), hex_digit (n mod 16)]"

definition escape_ascii :: "nat \<Rightarrow> string" where
  "escape_ascii c =
     (if c = 0x5C then [CHR 0x5C, CHR 0x5C]
      else if c = 0x22 then [CHR 0x5C, CHR 0x22]
      else if c = 0x08 then [CHR 0x5C, CHR ''b'']
      else if c = 0x0C then [CHR 0x5C, CHR ''f'']
      else if c = 0x0A then [CHR 0x5C, CHR ''n'']
      else if c = 0x0D then [CHR 0x5C, CHR ''r'']
      else if c = 0x09 then [CHR 0x5C, CHR ''t'']
      else if 0x20 \<le> c \<and> c \<le> 0x7E then [char_of c]
      else if c < 0x10000 then CHR 0x5C # CHR ''u'' # format_04x c
      else
        (let n = c - 0x10000;
             s1 = 0xD800 OR (drop_bit 10 n AND 0x3FF);
             s2 = 0xDC00 OR (n AND 0x3FF)
         in CHR 0x5C # CHR ''u'' # format_04x s1 @ CHR 0x5C # CHR ''u'' # format_04x s2))"

definition encode_basestring_ascii :: "pystr \<Rightarrow> string" where
  "encode_basestring_ascii s = CHR 0x22 # concat (map escape_ascii s) @ [CHR 0x22]"

text \<open>
  \<^verbatim>\<open>json.dumps(ret)\<close> for the dict of line 116, whose \<^verbatim>\<open>error_code\<close> and \<^verbatim>\<open>usage\<close> are
  the constants \<^verbatim>\<open>0\<close> and \<^verbatim>\<open>{}\<close>: only the text varies.
\<close>

definition json_dumps_ret :: "pystr \<Rightarrow> string" where
  \<open>json_dumps_ret text_outputs =
     ''{"text": '' @ encode_basestring_ascii text_outputs @ '', "error_code": 0, "usage": {}}''\<close>

text \<open>\<^verbatim>\<open>sep.join(xs)\<close>\<close>

fun py_join :: "'a list \<Rightarrow> 'a list list \<Rightarrow> 'a list" where
  "py_join sep [] = []"
| "py_join sep [x] = x"
| "py_join sep (x # y # ys) = x @ sep @ py_join sep (y # ys)"

text \<open>Lines 107 to 114: the text of one increment.\<close>

definition text_outputs :: "pyval \<Rightarrow> request_output \<Rightarrow> pystr" where
  "text_outputs echo request_output =
     py_join (py_str '' '')
       (if py_truthy echo
        then map (\<lambda>output. ro_prompt request_output @ co_text output) (ro_outputs request_output)
        else map co_text (ro_outputs request_output))"

text \<open>Lines 116 and 117: the bytes yielded, \<^verbatim>\<open>(json.dumps(ret) + "\0").encode()\<close>. The
  text before the sentinel is ASCII, so its UTF-8 encoding is the text itself.\<close>

definition frame :: "pyval \<Rightarrow> request_output \<Rightarrow> string" where
  "frame echo request_output = json_dumps_ret (text_outputs echo request_output) @ [CHR 0x00]"

text \<open>
  \<^verbatim>\<open>generate_stream\<close> as the frames the generator yields, in order, and the exception
  that ends it (\<open>None\<close> when it is exhausted normally). The generator also counts its
  calls in \<^verbatim>\<open>call_ct\<close> and removes \<^verbatim>\<open>prompt\<close> and \<^verbatim>\<open>request_id\<close> from the dict it is given;
  neither endpoint reads the dict again, and neither effect is part of the model.
\<close>

definition generate_stream :: "env \<Rightarrow> params \<Rightarrow> string list \<times> error option" where
  "generate_stream E params =
     (case sampling_setup E params of
        Inl e \<Rightarrow> ([], Some e)
      | Inr (context, request_id, sampling_params, echo) \<Rightarrow>
          (case engine_generate E context sampling_params request_id of
             (results, err) \<Rightarrow> (map (frame echo) results, err)))"

subsection \<open>Reading a frame back\<close>

text \<open>
  The part of \<^verbatim>\<open>json.loads\<close> that \<^verbatim>\<open>generate\<close> exercises. \<^verbatim>\<open>scanstring\<close> follows CPython's
  scanner after the opening quote: it returns the string and the input left after the
  closing quote. Escapes \<^verbatim>\<open>\uXXXX\<close> are four hexadecimal digits, and a high surrogate
  followed by an escaped low surrogate is joined into one code point. Control
  characters are refused (\<^verbatim>\<open>strict=True\<close>).
\<close>

definition hex_value :: "char \<Rightarrow> nat option" where
  "hex_value c =
     (let n = (of_char c :: nat)
      in if 48 \<le> n \<and> n \<le> 57 then Some (n - 48)
         else if 97 \<le> n \<and> n \<le> 102 then Some (n - 87)
         else if 65 \<le> n \<and> n \<le> 70 then Some (n - 55)
         else None)"

definition decode_uXXXX :: "string \<Rightarrow> nat option" where
  "decode_uXXXX s =
     (case s of
        a # b # c # d # rest \<Rightarrow>
          (case (hex_value a, hex_value b, hex_value c, hex_value d) of
             (Some w, Some x, Some y, Some z) \<Rightarrow> Some (4096 * w + 256 * x + 16 * y + z)
           | _ \<Rightarrow> None)
      | _ \<Rightarrow> None)"

text \<open>The table \<^verbatim>\<open>BACKSLASH\<close> of the decoder.\<close>

definition backslash :: "char \<Rightarrow> nat option" where
  "backslash c =
     (if c = CHR 0x22 then Some 0x22
      else if c = CHR 0x5C then Some 0x5C
      else if c = CHR ''/'' then Some 0x2F
      else if c = CHR ''b'' then Some 0x08
      else if c = CHR ''f'' then Some 0x0C
      else if c = CHR ''n'' then Some 0x0A
      else if c = CHR ''r'' then Some 0x0D
      else if c = CHR ''t'' then Some 0x09
      else None)"

definition scan_cons :: "nat \<Rightarrow> (pystr \<times> string) option \<Rightarrow> (pystr \<times> string) option" where
  "scan_cons c r = (case r of None \<Rightarrow> None | Some (chunks, rest) \<Rightarrow> Some (c # chunks, rest))"

fun scanstring :: "string \<Rightarrow> (pystr \<times> string) option" where
  "scanstring [] = None"
| "scanstring (c # cs) =
     (if c = CHR 0x22 then Some ([], cs)
      else if c = CHR 0x5C then
        (case cs of
           [] \<Rightarrow> None
         | esc # rest \<Rightarrow>
             if esc \<noteq> CHR ''u'' then
               (case backslash esc of
                  None \<Rightarrow> None
                | Some char \<Rightarrow> scan_cons char (scanstring rest))
             else
               (case decode_uXXXX rest of
                  None \<Rightarrow> None
                | Some uni \<Rightarrow>
                    if 0xD800 \<le> uni \<and> uni \<le> 0xDBFF
                       \<and> take 2 (drop 4 rest) = [CHR 0x5C, CHR ''u'']
                    then
                      (case decode_uXXXX (drop 6 rest) of
                         None \<Rightarrow> None
                       | Some uni2 \<Rightarrow>
                           if 0xDC00 \<le> uni2 \<and> uni2 \<le> 0xDFFF
                           then scan_cons
                                  (0x10000 + (push_bit 10 (uni - 0xD800) OR (uni2 - 0xDC00)))
                                  (scanstring (drop 10 rest))
                           else scan_cons uni (scanstring (drop 4 rest)))
                    else scan_cons uni (scanstring (drop 4 rest))))
      else if (of_char c :: nat) < 0x20 \<or> 0x80 \<le> (of_char c :: nat) then None
      else scan_cons (of_char c) (scanstring cs))"

text \<open>The dict \<^verbatim>\<open>generate\<close> returns.\<close>

record ret =
  ret_text :: pystr
  ret_error_code :: int
  ret_usage :: "(string \<times> pyval) list"

text \<open>
  \<^verbatim>\<open>bytes.decode()\<close> on ASCII bytes. A byte from \<open>0x80\<close> starts a multi-byte UTF-8
  sequence, which no frame contains and the model does not decode.
\<close>

definition bytes_decode :: "string \<Rightarrow> error + string" where
  "bytes_decode b =
     (if list_all (\<lambda>c. (of_char c :: nat) < 0x80) b then Inr b else Inl UnicodeDecodeError)"

text \<open>
  \<^verbatim>\<open>json.loads\<close> on a document laid out as \<^verbatim>\<open>json.dumps\<close> lays out the dict of line 116;
  other JSON text is outside the model.
\<close>

definition json_loads_ret :: "string \<Rightarrow> error + ret" where
  \<open>json_loads_ret s =
     (if take 10 s = ''{"text": "'' then
        (case scanstring (drop 10 s) of
           None \<Rightarrow> Inl JSONDecodeError
         | Some (t, rest) \<Rightarrow>
             if rest = '', "error_code": 0, "usage": {}}''
             then Inr \<lparr>ret_text = t, ret_error_code = 0, ret_usage = []\<rparr>
             else Inl JSONDecodeError)
      else Inl JSONDecodeError)\<close>

section \<open>generate\<close>

text \<open>
  Lines 119 to 122. The loop \<^verbatim>\<open>async for x in ...: pass\<close> leaves in \<^verbatim>\<open>x\<close> the last frame
  it saw; when the stream yields nothing \<^verbatim>\<open>x\<close> is unbound at line 122.
\<close>

definition generate :: "env \<Rightarrow> params \<Rightarrow> error + ret" where
  "generate E params =
     (case generate_stream E params of
        (frames, Some e) \<Rightarrow> Inl e
      | (frames, None) \<Rightarrow>
          (case foldl (\<lambda>x y. Some y) None frames of
             None \<Rightarrow> Inl UnboundLocalError
           | Some x \<Rightarrow>
               (case bytes_decode (butlast x) of
                  Inl e \<Rightarrow> Inl e
                | Inr s \<Rightarrow> json_loads_ret s)))"

section \<open>Reading the stream\<close>

text \<open>
  A client of the stream splits it at the sentinel: the frames that were closed by a
  sentinel, in order, and the bytes left after the last one.
\<close>

fun split_frames :: "string \<Rightarrow> string \<Rightarrow> string list \<times> string" where
  "split_frames cur [] = ([], cur)"
| "split_frames cur (b # bs) =
     (if b = CHR 0x00
      then (case split_frames [] bs of (frames, rest) \<Rightarrow> (cur # frames, rest))
      else split_frames (cur @ [b]) bs)"

text \<open>The texts of the dicts \<^verbatim>\<open>ret\<close> that \<^verbatim>\<open>generate_stream\<close> builds at line 116, in
  order: one per output of the engine.\<close>

definition stream_units :: "env \<Rightarrow> params \<Rightarrow> pystr list" where
  "stream_units E params =
     (case sampling_setup E params of
        Inl e \<Rightarrow> []
      | Inr (context, request_id, sampling_params, echo) \<Rightarrow>
          map (text_outputs echo) (fst (engine_generate E context sampling_params request_id)))"

text \<open>
  Code points and surrogates. JSON escapes a code point from \<open>0x10000\<close> as a pair of
  surrogates, so a text in which a high surrogate stands directly before a low one is
  read back with the two joined; every other text is read back as it was.
\<close>

definition high_surrogate :: "nat \<Rightarrow> bool" where
  "high_surrogate c = (0xD800 \<le> c \<and> c \<le> 0xDBFF)"

definition low_surrogate :: "nat \<Rightarrow> bool" where
  "low_surrogate c = (0xDC00 \<le> c \<and> c \<le> 0xDFFF)"

fun no_surrogate_pair :: "pystr \<Rightarrow> bool" where
  "no_surrogate_pair [] = True"
| "no_surrogate_pair [c] = True"
| "no_surrogate_pair (c # d # s) = (\<not> (high_surrogate c \<and> low_surrogate d) \<and> no_surrogate_pair (d # s))"

definition code_points :: "pystr \<Rightarrow> bool" where
  "code_points s = list_all (\<lambda>c. c < 0x110000) s"

definition printable :: "char \<Rightarrow> bool" where
  "printable c = (0x20 \<le> (of_char c :: nat) \<and> (of_char c :: nat) \<le> 0x7E)"

definition ok_after :: "string \<Rightarrow> bool" where
  "ok_after rest =
     (take 2 rest \<noteq> [CHR 0x5C, CHR ''u'']
      \<or> (\<exists>u2. decode_uXXXX (drop 2 rest) = Some u2 \<and> \<not> low_surrogate u2))"

section \<open>The prompt\<close>

text \<open>\<^verbatim>\<open>conv.set_system_message\<close> and \<^verbatim>\<open>conv.append_message\<close> of the conversation object.\<close>

definition set_system_message :: "conv \<Rightarrow> pyval \<Rightarrow> conv" where
  "set_system_message c system_message = c\<lparr>conv_system_message := system_message\<rparr>"

definition append_message :: "conv \<Rightarrow> pystr \<Rightarrow> pyval \<Rightarrow> conv" where
  "append_message c role message = c\<lparr>conv_messages := conv_messages c @ [(role, message)]\<rparr>"

text \<open>Lines 148 to 152: the loop over \<^verbatim>\<open>params["messages"]\<close>.\<close>

fun append_messages :: "conv \<Rightarrow> pyval list \<Rightarrow> error + conv" where
  "append_messages c [] = Inr c"
| "append_messages c (message # messages) =
     (case py_getitem message ''role'' of
        Inl e \<Rightarrow> Inl e
      | Inr role \<Rightarrow>
          if role = PStr (py_str ''human'') then
            (case py_getitem message ''text'' of
               Inl e \<Rightarrow> Inl e
             | Inr t \<Rightarrow> append_messages (append_message c (fst (conv_roles c)) t) messages)
          else if role = PStr (py_str ''ai'') then
            (case py_getitem message ''text'' of
               Inl e \<Rightarrow> Inl e
             | Inr t \<Rightarrow> append_messages (append_message c (snd (conv_roles c)) t) messages)
          else append_messages c messages)"

text \<open>Lines 145 to 155.\<close>

definition get_conversation_prompt :: "env \<Rightarrow> params \<Rightarrow> error + pystr" where
  "get_conversation_prompt E params =
     (case params ''model_identifier'' of None \<Rightarrow> Inl KeyError | Some model_identifier \<Rightarrow>
     (case get_conversation_template E model_identifier of Inl e \<Rightarrow> Inl e | Inr c \<Rightarrow>
     (case params ''system_message'' of None \<Rightarrow> Inl KeyError | Some system_message \<Rightarrow>
     (case params ''messages'' of None \<Rightarrow> Inl KeyError | Some messages \<Rightarrow>
     (case py_iter messages of Inl e \<Rightarrow> Inl e | Inr ms \<Rightarrow>
     (case append_messages (set_system_message c system_message) ms of
        Inl e \<Rightarrow> Inl e
      | Inr c \<Rightarrow> get_prompt E (append_message c (snd (conv_roles c)) PNone)))))))"

section \<open>The worker and its request handlers\<close>

text \<open>
  The two endpoints are coroutines on one event loop: a handler runs without
  interruption from one \<^verbatim>\<open>await\<close> to the next. The worker is modelled as a state and
  the events that let one handler run its next uninterrupted piece; any interleaving of
  the handlers is a list of events.

  \<^verbatim>\<open>worker.semaphore\<close> is \<open>None\<close> until the first acquire and then an
  \<^verbatim>\<open>asyncio.Semaphore\<close>, represented by its counter: \<^verbatim>\<open>acquire()\<close> returns once the counter
  is positive and decrements it, \<^verbatim>\<open>release()\<close> increments it (the class has no upper
  bound). \<^verbatim>\<open>random_uuid()\<close> is a counter: no two calls return the same id.
  The list \<open>aborted\<close> records the calls of \<^verbatim>\<open>engine.abort\<close>, in order.
\<close>

datatype endpoint = Worker_generate_stream | Worker_generate

datatype task = Release_worker_semaphore | Abort_request pyval

text \<open>
  Where a handler stands. \<open>Awaiting_semaphore\<close>: suspended in
  \<^verbatim>\<open>await acquire_worker_semaphore()\<close> (line 163 or 176). \<open>Rejected\<close>: an exception ended it
  before that await returned. \<open>Streaming\<close>: \<^verbatim>\<open>api_generate_stream\<close> has returned its
  \<^verbatim>\<open>StreamingResponse\<close> and the framework is iterating the generator; the number counts
  the frames sent. \<open>Generating\<close>: \<^verbatim>\<open>api_generate\<close> is inside \<^verbatim>\<open>await worker.generate(params)\<close>.
  \<open>Background\<close>: the response is over and the framework runs the background tasks that
  are left. \<open>Finished\<close>: the handler and its background tasks are done. \<open>Raised\<close>: an
  exception ended the handler after the semaphore was acquired.
\<close>

datatype phase =
    Awaiting_semaphore params
  | Rejected error
  | Streaming pyval params nat "task list"
  | Generating pyval params nat
  | Background pyval "task list"
  | Finished pyval
  | Raised pyval error

text \<open>
  A handler, with two counters that are not in the code: how often its
  \<^verbatim>\<open>acquire_worker_semaphore()\<close> has returned and how often \<^verbatim>\<open>release_worker_semaphore()\<close>
  has run for it. \<open>h_sent\<close> are the chunks written to the client, \<open>h_response\<close> the
  body of the \<^verbatim>\<open>JSONResponse\<close>.
\<close>

record handler =
  h_endpoint :: endpoint
  h_phase :: phase
  h_acquired :: nat
  h_released :: nat
  h_sent :: "string list"
  h_response :: "ret option"

record worker =
  semaphore :: "nat option"
  uuid_count :: nat
  handlers :: "handler list"
  aborted :: "pyval list"

definition init_worker :: worker where
  "init_worker = \<lparr>semaphore = None, uuid_count = 0, handlers = [], aborted = []\<rparr>"

text \<open>Lines 125 and 126. Without a semaphore, \<^verbatim>\<open>None.release()\<close> raises.\<close>

definition release_worker_semaphore :: "worker \<Rightarrow> error + worker" where
  "release_worker_semaphore w =
     (case semaphore w of
        None \<Rightarrow> Inl AttributeError
      | Some v \<Rightarrow> Inr (w\<lparr>semaphore := Some (v + 1)\<rparr>))"

text \<open>
  Lines 129 to 132, as one attempt of the awaiting coroutine: the semaphore is created
  if there is none; the flag tells whether \<^verbatim>\<open>acquire()\<close> returned (the counter was
  positive and has been decremented) or the caller stays suspended.
\<close>

definition acquire_worker_semaphore :: "env \<Rightarrow> worker \<Rightarrow> worker \<times> bool" where
  "acquire_worker_semaphore E w =
     (let v = (case semaphore w of None \<Rightarrow> limit_worker_concurrency E | Some v \<Rightarrow> v)
      in if 0 < v then (w\<lparr>semaphore := Some (v - 1)\<rparr>, True)
         else (w\<lparr>semaphore := Some v\<rparr>, False))"

definition random_uuid :: "worker \<Rightarrow> pyval \<times> worker" where
  "random_uuid w = (PInt (int (uuid_count w)), w\<lparr>uuid_count := Suc (uuid_count w)\<rparr>)"

text \<open>Lines 135 to 142: the tasks in the order they are added, which is the order the
  framework runs them in.\<close>

definition create_background_tasks :: "pyval \<Rightarrow> task list" where
  "create_background_tasks request_id = [Release_worker_semaphore, Abort_request request_id]"

text \<open>
  The events. \<open>Request\<close>: a request with the given JSON body reaches an endpoint; its
  handler runs to its first suspension. \<open>Acquire i\<close>: handler \<open>i\<close>, suspended at the
  semaphore, is resumed. \<open>Pull i\<close>: the consumer of handler \<open>i\<close>'s generator (the
  framework for a \<^verbatim>\<open>StreamingResponse\<close>, the loop of \<^verbatim>\<open>generate\<close> otherwise) takes its next
  step. \<open>Disconnect i\<close>: the client of a streaming response hangs up; the framework
  stops iterating the generator and goes on to the background tasks, as it does when the
  body has been sent. \<open>Cancel i\<close>: the task of handler \<open>i\<close> is cancelled while
  suspended, so \<^verbatim>\<open>CancelledError\<close> is raised in it. \<open>Background_task i\<close>: the framework
  runs the next background task of handler \<open>i\<close>.
\<close>

datatype event =
    Request endpoint params
  | Acquire nat
  | Pull nat
  | Disconnect nat
  | Cancel nat
  | Background_task nat

text \<open>Lines 160 and 161 (173 and 174): up to the first suspension.\<close>

definition new_handler :: "env \<Rightarrow> endpoint \<Rightarrow> params \<Rightarrow> handler" where
  "new_handler E ep params =
     \<lparr>h_endpoint = ep,
      h_phase =
        (case get_conversation_prompt E params of
           Inl e \<Rightarrow> Rejected e
         | Inr prompt \<Rightarrow> Awaiting_semaphore (params(''prompt'' \<mapsto> PStr prompt))),
      h_acquired = 0, h_released = 0, h_sent = [], h_response = None\<rparr>"

definition set_handler :: "nat \<Rightarrow> handler \<Rightarrow> worker \<Rightarrow> worker" where
  "set_handler i h w = w\<lparr>handlers := (handlers w)[i := h]\<rparr>"

text \<open>
  Lines 163 to 168 and 176 to 179, from the return of the acquire to the next
  suspension: the request id, and the generator handed to the framework with its
  background tasks, or the call of \<^verbatim>\<open>worker.generate\<close>.
\<close>

definition admit :: "env \<Rightarrow> nat \<Rightarrow> handler \<Rightarrow> params \<Rightarrow> worker \<Rightarrow> worker" where
  "admit E i h params w =
     (case acquire_worker_semaphore E w of
        (w1, False) \<Rightarrow> w1
      | (w1, True) \<Rightarrow>
          (case random_uuid w1 of
             (request_id, w2) \<Rightarrow>
               (let params = params(''request_id'' \<mapsto> request_id)
                in set_handler i
                     (h\<lparr>h_acquired := Suc (h_acquired h),
                        h_phase :=
                          (case h_endpoint h of
                             Worker_generate_stream \<Rightarrow>
                               Streaming request_id params 0 (create_background_tasks request_id)
                           | Worker_generate \<Rightarrow> Generating request_id params 0)\<rparr>)
                     w2)))"

text \<open>
  One step of the framework over the body of a \<^verbatim>\<open>StreamingResponse\<close>: the next frame is
  sent; when the generator is exhausted the background tasks become due; when it raises,
  the exception leaves the response and the background tasks are not run.
\<close>

definition stream_step :: "env \<Rightarrow> nat \<Rightarrow> handler \<Rightarrow> pyval \<Rightarrow> params \<Rightarrow> nat \<Rightarrow> task list \<Rightarrow> worker \<Rightarrow> worker" where
  "stream_step E i h request_id params k background w =
     (case generate_stream E params of
        (frames, err) \<Rightarrow>
          if k < length frames then
            set_handler i
              (h\<lparr>h_sent := h_sent h @ [frames ! k],
                 h_phase := Streaming request_id params (Suc k) background\<rparr>) w
          else
            (case err of
               None \<Rightarrow> set_handler i (h\<lparr>h_phase := Background request_id background\<rparr>) w
             | Some e \<Rightarrow> set_handler i (h\<lparr>h_phase := Raised request_id e\<rparr>) w))"

text \<open>
  One step of \<^verbatim>\<open>api_generate\<close> inside line 179: the loop of \<^verbatim>\<open>generate\<close> takes a frame, or
  \<^verbatim>\<open>generate\<close> ends. If it returns, lines 181 to 183 follow without a suspension
  before \<^verbatim>\<open>engine.abort\<close> is called; if it raises, they are skipped.
\<close>

definition generate_step :: "env \<Rightarrow> nat \<Rightarrow> handler \<Rightarrow> pyval \<Rightarrow> params \<Rightarrow> nat \<Rightarrow> worker \<Rightarrow> worker" where
  "generate_step E i h request_id params k w =
     (if k < length (fst (generate_stream E params)) then
        set_handler i (h\<lparr>h_phase := Generating request_id params (Suc k)\<rparr>) w
      else
        (case generate E params of
           Inl e \<Rightarrow> set_handler i (h\<lparr>h_phase := Raised request_id e\<rparr>) w
         | Inr output \<Rightarrow>
             (case release_worker_semaphore w of
                Inl e \<Rightarrow> set_handler i (h\<lparr>h_phase := Raised request_id e\<rparr>) w
              | Inr w1 \<Rightarrow>
                  set_handler i
                    (h\<lparr>h_released := Suc (h_released h), h_response := Some output,
                       h_phase := Finished request_id\<rparr>)
                    (w1\<lparr>aborted := aborted w1 @ [request_id]\<rparr>))))"

text \<open>The next background task of a finished response.\<close>

definition background_step :: "nat \<Rightarrow> handler \<Rightarrow> pyval \<Rightarrow> task \<Rightarrow> task list \<Rightarrow> worker \<Rightarrow> worker" where
  "background_step i h request_id t ts w =
     (let next = (if ts = [] then Finished request_id else Background request_id ts)
      in case t of
           Release_worker_semaphore \<Rightarrow>
             (case release_worker_semaphore w of
                Inl e \<Rightarrow> set_handler i (h\<lparr>h_phase := Raised request_id e\<rparr>) w
              | Inr w1 \<Rightarrow>
                  set_handler i (h\<lparr>h_released := Suc (h_released h), h_phase := next\<rparr>) w1)
         | Abort_request r \<Rightarrow>
             set_handler i (h\<lparr>h_phase := next\<rparr>) (w\<lparr>aborted := aborted w @ [r]\<rparr>))"

text \<open>An event in a state: the next state, or \<open>None\<close> when the event cannot happen
  there.\<close>

definition exec :: "env \<Rightarrow> event \<Rightarrow> worker \<Rightarrow> worker option" where
  "exec E ev w =
     (case ev of
        Request ep params \<Rightarrow> Some (w\<lparr>handlers := handlers w @ [new_handler E ep params]\<rparr>)
      | Acquire i \<Rightarrow>
          (if i < length (handlers w) then
             (case h_phase (handlers w ! i) of
                Awaiting_semaphore params \<Rightarrow> Some (admit E i (handlers w ! i) params w)
              | _ \<Rightarrow> None)
           else None)
      | Pull i \<Rightarrow>
          (if i < length (handlers w) then
             (case h_phase (handlers w ! i) of
                Streaming request_id params k background \<Rightarrow>
                  Some (stream_step E i (handlers w ! i) request_id params k background w)
              | Generating request_id params k \<Rightarrow>
                  Some (generate_step E i (handlers w ! i) request_id params k w)
              | _ \<Rightarrow> None)
           else None)
      | Disconnect i \<Rightarrow>
          (if i < length (handlers w) then
             (case h_phase (handlers w ! i) of
                Streaming request_id params k background \<Rightarrow>
                  Some (set_handler i
                          ((handlers w ! i)\<lparr>h_phase := Background request_id background\<rparr>) w)
              | _ \<Rightarrow> None)
           else None)
      | Cancel i \<Rightarrow>
          (if i < length (handlers w) then
             (case h_phase (handlers w ! i) of
                Awaiting_semaphore params \<Rightarrow>
                  Some (set_handler i ((handlers w ! i)\<lparr>h_phase := Rejected CancelledError\<rparr>) w)
              | Streaming request_id params k background \<Rightarrow>
                  Some (set_handler i
                          ((handlers w ! i)\<lparr>h_phase := Raised request_id CancelledError\<rparr>) w)
              | Generating request_id params k \<Rightarrow>
                  Some (set_handler i
                          ((handlers w ! i)\<lparr>h_phase := Raised request_id CancelledError\<rparr>) w)
              | _ \<Rightarrow> None)
           else None)
      | Background_task i \<Rightarrow>
          (if i < length (handlers w) then
             (case h_phase (handlers w ! i) of
                Background request_id (t # ts) \<Rightarrow>
                  Some (background_step i (handlers w ! i) request_id t ts w)
              | _ \<Rightarrow> None)
           else None))"

fun run :: "env \<Rightarrow> event list \<Rightarrow> worker \<Rightarrow> worker option" where
  "run E [] w = Some w"
| "run E (ev # evs) w = (case exec E ev w of None \<Rightarrow> None | Some w1 \<Rightarrow> run E evs w1)"

text \<open>A handler holds a slot from the return of its acquire to its release.\<close>

definition holding :: "handler \<Rightarrow> bool" where
  "holding h = (h_released h < h_acquired h)"

definition holders :: "worker \<Rightarrow> nat" where
  "holders w = length (filter holding (handlers w))"

section \<open>What holds in every reachable state\<close>

text \<open>The counter of the semaphore, read as the capacity while the semaphore has not
  been created.\<close>

definition sem_value :: "env \<Rightarrow> worker \<Rightarrow> nat" where
  "sem_value E w =
     (case semaphore w of None \<Rightarrow> limit_worker_concurrency E | Some v \<Rightarrow> v)"

fun request_id_of :: "phase \<Rightarrow> pyval option" where
  "request_id_of (Awaiting_semaphore params) = None"
| "request_id_of (Rejected e) = None"
| "request_id_of (Streaming request_id params k background) = Some request_id"
| "request_id_of (Generating request_id params k) = Some request_id"
| "request_id_of (Background request_id ts) = Some request_id"
| "request_id_of (Finished request_id) = Some request_id"
| "request_id_of (Raised request_id e) = Some request_id"

definition issued :: "nat \<Rightarrow> pyval \<Rightarrow> bool" where
  "issued n request_id = (\<exists>k < n. request_id = PInt (int k))"

text \<open>
  What the phase of a handler says about its counters, its background tasks and the
  calls of \<^verbatim>\<open>engine.abort\<close> with its request id; \<open>n\<close> is the number of ids issued and
  \<open>ab\<close> the list of aborted ids.
\<close>

fun handler_ok :: "nat \<Rightarrow> pyval list \<Rightarrow> handler \<Rightarrow> bool" where
  "handler_ok n ab h =
     (case h_phase h of
        Awaiting_semaphore params \<Rightarrow> h_acquired h = 0 \<and> h_released h = 0
      | Rejected e \<Rightarrow> h_acquired h = 0 \<and> h_released h = 0
      | Streaming request_id params k background \<Rightarrow>
          h_acquired h = 1 \<and> h_released h = 0 \<and> issued n request_id
          \<and> count_list ab request_id = 0
          \<and> background = create_background_tasks request_id
      | Generating request_id params k \<Rightarrow>
          h_acquired h = 1 \<and> h_released h = 0 \<and> issued n request_id
          \<and> count_list ab request_id = 0
      | Background request_id ts \<Rightarrow>
          h_acquired h = 1 \<and> issued n request_id \<and> count_list ab request_id = 0
          \<and> (h_released h = 0 \<and> ts = create_background_tasks request_id
              \<or> h_released h = 1 \<and> ts = [Abort_request request_id])
      | Finished request_id \<Rightarrow>
          h_acquired h = 1 \<and> h_released h = 1 \<and> issued n request_id
          \<and> count_list ab request_id = 1
      | Raised request_id e \<Rightarrow>
          h_acquired h = 1 \<and> h_released h = 0 \<and> issued n request_id
          \<and> count_list ab request_id = 0)"

definition distinct_ids :: "handler list \<Rightarrow> bool" where
  "distinct_ids hs =
     (\<forall>i < length hs. \<forall>j < length hs. i \<noteq> j \<longrightarrow>
        request_id_of (h_phase (hs ! i)) = None
        \<or> request_id_of (h_phase (hs ! i)) \<noteq> request_id_of (h_phase (hs ! j)))"

definition worker_inv :: "env \<Rightarrow> worker \<Rightarrow> bool" where
  "worker_inv E w =
     (list_all (handler_ok (uuid_count w) (aborted w)) (handlers w)
      \<and> sem_value E w + holders w = limit_worker_concurrency E
      \<and> distinct_ids (handlers w)
      \<and> list_all (issued (uuid_count w)) (aborted w))"

text \<open>The handler an event belongs to, and the phases no event leaves.\<close>

fun target :: "event \<Rightarrow> nat option" where
  "target (Request ep params) = None"
| "target (Acquire i) = Some i"
| "target (Pull i) = Some i"
| "target (Disconnect i) = Some i"
| "target (Cancel i) = Some i"
| "target (Background_task i) = Some i"

definition terminal :: "phase \<Rightarrow> bool" where
  "terminal p = (case p of Rejected e \<Rightarrow> True | Finished r \<Rightarrow> True | Raised r e \<Rightarrow> True | _ \<Rightarrow> False)"

section \<open>A test double\<close>

text \<open>
  A small environment to run the model on: a tokenizer with end-of-sequence id 2, an
  engine that reports the prompt it was given and grows one output in two steps, two
  slots, and a template that joins the messages into one line each.
\<close>

definition test_decode :: "pyval \<Rightarrow> error + pystr" where
  "test_decode tid =
     (case tid of
        PInt i \<Rightarrow> Inr (if i = 2 then py_str ''</s>'' else if i = 13 then py_str ''###'' else py_str ''?'')
      | _ \<Rightarrow> Inl TypeError)"

definition test_engine :: "pyval \<Rightarrow> sampling_params \<Rightarrow> pyval \<Rightarrow> request_output list \<times> error option" where
  "test_engine context sampling_params request_id =
     (case context of
        PStr prompt \<Rightarrow>
          ([\<lparr>ro_prompt = prompt, ro_outputs = [\<lparr>co_text = py_str ''Hel''\<rparr>]\<rparr>,
            \<lparr>ro_prompt = prompt, ro_outputs = [\<lparr>co_text = py_str ''Hello''\<rparr>]\<rparr>], None)
      | _ \<Rightarrow> ([], Some TypeError))"

definition test_get_prompt :: "conv \<Rightarrow> error + pystr" where
  "test_get_prompt c =
     Inr (concat (map (\<lambda>(role, message).
            role @ py_str '':'' @ (case message of PStr t \<Rightarrow> t | _ \<Rightarrow> []) @ py_str '';'')
          (conv_messages c)))"

definition test_env :: env where
  "test_env =
     \<lparr>eos_token_id = Some 2,
      tokenizer_decode = test_decode,
      engine_generate = test_engine,
      limit_worker_concurrency = 2,
      get_conversation_template =
        (\<lambda>model_identifier. Inr \<lparr>conv_roles = (py_str ''USER'', py_str ''BOT''),
                                 conv_system_message = PNone, conv_messages = []\<rparr>),
      get_prompt = test_get_prompt,
      float_of_str = (\<lambda>s. Inl ValueError),
      float_of_long = (\<lambda>i. Inl OverflowError)\<rparr>"

text \<open>The same worker with a single slot and an engine that raises after its first
  output.\<close>

definition failing_engine :: "pyval \<Rightarrow> sampling_params \<Rightarrow> pyval \<Rightarrow> request_output list \<times> error option" where
  "failing_engine context sampling_params request_id =
     (case test_engine context sampling_params request_id of
        (results, err) \<Rightarrow> (take 1 results, Some EngineError))"

definition failing_env :: env where
  "failing_env = test_env\<lparr>engine_generate := failing_engine, limit_worker_concurrency := 1\<rparr>"

text \<open>A request body, and the parameters \<^verbatim>\<open>generate_stream\<close> receives for it.\<close>

definition test_body :: params where
  "test_body =
     [''model_identifier'' \<mapsto> PStr (py_str ''vicuna''),
      ''system_message'' \<mapsto> PStr (py_str ''Be brief.''),
      ''messages'' \<mapsto> PList [PDict [(''role'', PStr (py_str ''human'')),
                                     (''text'', PStr (py_str ''Hi''))]]]"

definition test_params :: params where
  "test_params = test_body(''prompt'' \<mapsto> PStr (py_str ''USER:Hi;BOT:;''), ''request_id'' \<mapsto> PInt 0)"

section \<open>Facts about the sampling configuration\<close>

lemma sampling_setup_Inr:
  assumes "sampling_setup E params = Inr (context, request_id, sp, echo)"
  obtains temperature top_p stop_token_ids stop0 tids where
    "params ''prompt'' = Some context"
    "params ''request_id'' = Some request_id"
    "py_float E (py_get params ''temperature'' (PFloat (Finite 1))) = Inr temperature"
    "py_float E (py_get params ''top_p'' (PFloat (Finite 1))) = Inr top_p"
    "get_stop_token_ids E params = Inr stop_token_ids"
    "handle_stop_str (py_get params ''stop'' PNone) = Inr stop0"
    "py_iter stop_token_ids = Inr tids"
    "add_stop_tokens E tids stop0 = Inr (sp_stop sp)"
    "sp_temperature sp = temperature"
    "sp_top_p sp = normalize_top_p temperature top_p"
    "sp_n sp = 1"
    "sp_max_tokens sp = py_get params ''max_new_tokens'' (PInt 256)"
    "echo = py_get params ''echo'' (PBool True)"
  using assms unfolding sampling_setup_def Let_def
  by (auto split: option.splits sum.splits)

lemma normalize_top_p_cases:
  "normalize_top_p temperature top_p =
     (if float_le temperature float_1e_5 then Finite 1
      else if float_lt top_p float_1e_5 then float_1e_5 else top_p)"
  by (simp add: normalize_top_p_def py_max_def Let_def)

lemma normalize_top_p_nonzero: "normalize_top_p temperature top_p \<noteq> Finite 0"
  unfolding normalize_top_p_cases
  by (cases top_p) (auto simp: float_1e_5_def)

lemma add_stop_tokens_sound:
  "add_stop_tokens E tids stop = Inr stop' \<Longrightarrow>
     stop' = stop \<union> {PStr s |s tid. tid \<in> set tids \<and> tid \<noteq> PNone \<and> tokenizer_decode E tid = Inr s}
     \<and> (\<forall>tid \<in> set tids. tid \<noteq> PNone \<longrightarrow> (\<exists>s. tokenizer_decode E tid = Inr s))"
proof (induction tids arbitrary: stop)
  case Nil
  then show ?case by simp
next
  case (Cons tid tids)
  show ?case
  proof (cases "tid = PNone")
    case True
    with Cons.prems have r: "add_stop_tokens E tids stop = Inr stop'" by simp
    from Cons.IH[OF r] True show ?thesis by auto
  next
    case False
    with Cons.prems obtain s where s: "tokenizer_decode E tid = Inr s"
      and r: "add_stop_tokens E tids (insert (PStr s) stop) = Inr stop'"
      by (auto split: sum.splits)
    from Cons.IH[OF r] s False show ?thesis by auto
  qed
qed

lemma handle_stop_str_strings:
  "handle_stop_str (PList (map PStr ss)) = Inr (PStr ` set ss)"
  by (auto simp: list_all_iff)

lemma get_stop_token_ids_list:
  assumes "get_stop_token_ids E params = Inr v" "py_get params ''stop_token_ids'' PNone = PList xs"
  shows "v = PList (xs @ (case eos_token_id E of None \<Rightarrow> [] | Some eos \<Rightarrow> [PInt eos]))"
  using assms by (cases xs) (auto simp: get_stop_token_ids_def split: option.splits)

lemma get_stop_token_ids_eos:
  assumes "get_stop_token_ids E params = Inr v" "eos_token_id E = Some eos"
  shows "\<exists>xs. v = PList (xs @ [PInt eos])"
  using assms by (auto simp: get_stop_token_ids_def Let_def split: pyval.splits)




lemmas test_defs =
  test_env_def test_decode_def test_engine_def test_get_prompt_def test_body_def
  test_params_def failing_env_def failing_engine_def py_str_def

lemmas setup_defs = sampling_setup_def py_get_def get_stop_token_ids_def

section \<open>Facts about the wire format\<close>

lemma and_3FF: "(n::nat) AND 0x3FF = n mod 1024"
proof -
  have "(0x3FF::nat) = mask 10" by (simp add: mask_eq_exp_minus_1)
  then have "n AND 0x3FF = take_bit 10 n" by (simp add: take_bit_eq_mask)
  then show ?thesis by (simp add: take_bit_eq_mod)
qed

lemma or_shifted:
  assumes "b < 1024"
  shows "push_bit 10 a OR b = a * 1024 + (b::nat)"
proof -
  from assms have b: "take_bit 10 b = b" by (simp add: take_bit_nat_eq_self)
  have "push_bit 10 a + take_bit 10 b = push_bit 10 a OR take_bit 10 b"
    by (rule disjunctive_add) (auto simp: bit_simps)
  with b show ?thesis by (simp add: push_bit_eq_mult)
qed

lemma high_surrogate_eq:
  assumes "(n::nat) < 0x100000"
  shows "0xD800 OR (drop_bit 10 n AND 0x3FF) = 0xD800 + n div 1024"
proof -
  from assms have d: "n div 1024 < 1024" by simp
  have "(0xD800::nat) = push_bit 10 54" by (simp add: push_bit_eq_mult)
  then have "0xD800 OR (drop_bit 10 n AND 0x3FF) = push_bit 10 54 OR (n div 1024 mod 1024)"
    by (simp add: and_3FF drop_bit_eq_div)
  also have "\<dots> = 54 * 1024 + n div 1024 mod 1024" by (rule or_shifted) simp
  finally show ?thesis using d by simp
qed

lemma low_surrogate_eq: "0xDC00 OR ((n::nat) AND 0x3FF) = 0xDC00 + n mod 1024"
proof -
  have "(0xDC00::nat) = push_bit 10 55" by (simp add: push_bit_eq_mult)
  then have "0xDC00 OR (n AND 0x3FF) = push_bit 10 55 OR (n mod 1024)"
    by (simp add: and_3FF)
  also have "\<dots> = 55 * 1024 + n mod 1024" by (rule or_shifted) simp
  finally show ?thesis by simp
qed

lemma join_surrogates: "push_bit 10 (n div 1024) OR (n mod 1024) = (n::nat)"
proof -
  have "push_bit 10 (n div 1024) OR (n mod 1024) = n div 1024 * 1024 + n mod 1024"
    by (rule or_shifted) simp
  then show ?thesis by simp
qed

lemma hex4:
  assumes "n < 65536"
  shows "4096 * (n div 4096 mod 16) + 256 * (n div 256 mod 16) + 16 * (n div 16 mod 16) + n mod 16 = (n::nat)"
proof -
  have a: "256 * (n div 256 mod 16) + n mod 256 = n mod 4096"
    using mod_mult2_eq[of n 256 16] by simp
  have b: "16 * (n div 16 mod 16) + n mod 16 = n mod 256"
    using mod_mult2_eq[of n 16 16] by simp
  have c: "4096 * (n div 4096) + n mod 4096 = n"
    by (rule mult_div_mod_eq)
  from assms have "n div 4096 < 16"
    by (intro less_mult_imp_div_less) simp
  then have d: "n div 4096 mod 16 = n div 4096" by (rule mod_less)
  have "4096 * (n div 4096 mod 16) + 256 * (n div 256 mod 16) + 16 * (n div 16 mod 16) + n mod 16
      = 4096 * (n div 4096) + (256 * (n div 256 mod 16) + (16 * (n div 16 mod 16) + n mod 16))"
    by (simp only: d add.assoc)
  also have "\<dots> = 4096 * (n div 4096) + (256 * (n div 256 mod 16) + n mod 256)"
    by (simp only: b)
  also have "\<dots> = 4096 * (n div 4096) + n mod 4096"
    by (simp only: a)
  also have "\<dots> = n" by (rule c)
  finally show ?thesis .
qed

lemma hex_value_hex_digit: "d < 16 \<Longrightarrow> hex_value (hex_digit d) = Some d"
  by (auto simp: hex_value_def hex_digit_def Let_def)

lemma printable_hex_digit: "d < 16 \<Longrightarrow> printable (hex_digit d)"
  by (auto simp: printable_def hex_digit_def)

lemma printable_format_04x: "list_all printable (format_04x n)"
  by (simp add: format_04x_def printable_hex_digit)

lemma printable_escape_ascii: "list_all printable (escape_ascii c)"
  using printable_format_04x
  by (auto simp: escape_ascii_def Let_def printable_def)

lemma length_format_04x [simp]: "length (format_04x n) = 4"
  by (simp add: format_04x_def)

lemma decode_format_04x: "n < 0x10000 \<Longrightarrow> decode_uXXXX (format_04x n @ rest) = Some n"
  using hex4[of n] by (simp add: decode_uXXXX_def format_04x_def hex_value_hex_digit)

declare scanstring.simps(2) [simp del]

lemma scanstring_quote: "scanstring (CHR 0x22 # rest) = Some ([], rest)"
  by (simp add: scanstring.simps(2))

lemma scanstring_bmp:
  assumes "n < 0x10000" "high_surrogate n \<longrightarrow> ok_after rest"
  shows "scanstring (CHR 0x5C # CHR ''u'' # format_04x n @ rest) = scan_cons n (scanstring rest)"
proof -
  have d: "decode_uXXXX (format_04x n @ rest) = Some n"
    using assms(1) by (rule decode_format_04x)
  show ?thesis
  proof (cases "high_surrogate n \<and> take 2 rest = [CHR 0x5C, CHR ''u'']")
    case True
    with assms(2) obtain u2 where "decode_uXXXX (drop 2 rest) = Some u2" "\<not> low_surrogate u2"
      by (auto simp: ok_after_def)
    with True d show ?thesis
      by (auto simp: scanstring.simps(2)[of "CHR 0x5C"] high_surrogate_def low_surrogate_def)
  next
    case False
    with d show ?thesis
      by (auto simp: scanstring.simps(2)[of "CHR 0x5C"] high_surrogate_def)
  qed
qed

lemma scanstring_pair:
  assumes "n < 0x100000"
  shows "scanstring (CHR 0x5C # CHR ''u'' # format_04x (0xD800 + n div 1024)
           @ CHR 0x5C # CHR ''u'' # format_04x (0xDC00 + n mod 1024) @ rest)
         = scan_cons (0x10000 + n) (scanstring rest)"
proof -
  let ?s1 = "0xD800 + n div 1024" and ?s2 = "0xDC00 + n mod 1024"
  let ?r1 = "CHR 0x5C # CHR ''u'' # format_04x ?s2 @ rest"
  from assms have b1: "?s1 < 0x10000" "0xD800 \<le> ?s1" "?s1 \<le> 0xDBFF" by simp_all
  have b2: "?s2 < 0x10000" "0xDC00 \<le> ?s2" "?s2 \<le> 0xDFFF" by simp_all
  have d1: "decode_uXXXX (format_04x ?s1 @ ?r1) = Some ?s1"
    using b1(1) by (rule decode_format_04x)
  have d2: "decode_uXXXX (format_04x ?s2 @ rest) = Some ?s2"
    using b2(1) by (rule decode_format_04x)
  have j: "push_bit 10 (?s1 - 0xD800) OR (?s2 - 0xDC00) = n"
    using join_surrogates[of n] by simp
  show ?thesis
    unfolding scanstring.simps(2)[of "CHR 0x5C"]
    using d1 d2 b1 b2 j by simp
qed

lemma scanstring_escape_ascii:
  assumes "c < 0x110000" "high_surrogate c \<longrightarrow> ok_after rest"
  shows "scanstring (escape_ascii c @ rest) = scan_cons c (scanstring rest)"
proof -
  consider (named) "c \<in> {0x5C, 0x22, 0x08, 0x0C, 0x0A, 0x0D, 0x09}"
    | (plain) "c \<notin> {0x5C, 0x22, 0x08, 0x0C, 0x0A, 0x0D, 0x09}" "0x20 \<le> c" "c \<le> 0x7E"
    | (bmp) "c \<notin> {0x5C, 0x22, 0x08, 0x0C, 0x0A, 0x0D, 0x09}" "\<not> (0x20 \<le> c \<and> c \<le> 0x7E)" "c < 0x10000"
    | (astral) "0x10000 \<le> c"
    by fastforce
  then show ?thesis
  proof cases
    case named
    then show ?thesis
      by (auto simp: escape_ascii_def scanstring.simps(2)[of "CHR 0x5C"] backslash_def)
  next
    case plain
    then have e: "escape_ascii c = [char_of c]" by (simp add: escape_ascii_def)
    from plain have "char_of c \<noteq> CHR 0x22" "char_of c \<noteq> CHR 0x5C"
      by (auto simp: char_of_eq_iff take_bit_nat_eq_self)
    with plain show ?thesis
      by (simp add: e scanstring.simps(2)[of "char_of c"])
  next
    case bmp
    then have "escape_ascii c = CHR 0x5C # CHR ''u'' # format_04x c"
      by (simp add: escape_ascii_def)
    with scanstring_bmp[OF bmp(3) assms(2)] show ?thesis by simp
  next
    case astral
    let ?n = "c - 0x10000"
    from assms(1) astral have n: "?n < 0x100000" by simp
    from astral have "escape_ascii c =
        CHR 0x5C # CHR ''u'' # format_04x (0xD800 + ?n div 1024)
          @ CHR 0x5C # CHR ''u'' # format_04x (0xDC00 + ?n mod 1024)"
      by (simp add: escape_ascii_def Let_def high_surrogate_eq[OF n] low_surrogate_eq)
    with scanstring_pair[OF n, of rest] astral show ?thesis by simp
  qed
qed

lemma ok_after_quote: "ok_after (CHR 0x22 # rest)"
  by (simp add: ok_after_def)

lemma ok_after_other: "x \<noteq> CHR 0x5C \<Longrightarrow> ok_after (x # rest)"
  by (simp add: ok_after_def)

lemma ok_after_named: "x \<noteq> CHR ''u'' \<Longrightarrow> ok_after (CHR 0x5C # x # rest)"
  by (simp add: ok_after_def)

lemma ok_after_u:
  assumes "n < 0x10000" "\<not> low_surrogate n"
  shows "ok_after (CHR 0x5C # CHR ''u'' # format_04x n @ rest)"
proof -
  have "decode_uXXXX (format_04x n @ rest) = Some n"
    using assms(1) by (rule decode_format_04x)
  with assms(2) show ?thesis by (simp add: ok_after_def)
qed

lemma ok_after_escape_ascii:
  assumes "c < 0x110000" "\<not> low_surrogate c"
  shows "ok_after (escape_ascii c @ rest)"
proof -
  consider (named) "c \<in> {0x5C, 0x22, 0x08, 0x0C, 0x0A, 0x0D, 0x09}"
    | (plain) "c \<notin> {0x5C, 0x22, 0x08, 0x0C, 0x0A, 0x0D, 0x09}" "0x20 \<le> c" "c \<le> 0x7E"
    | (bmp) "c \<notin> {0x5C, 0x22, 0x08, 0x0C, 0x0A, 0x0D, 0x09}" "\<not> (0x20 \<le> c \<and> c \<le> 0x7E)" "c < 0x10000"
    | (astral) "0x10000 \<le> c"
    by fastforce
  then show ?thesis
  proof cases
    case named
    then show ?thesis
      by (elim insertE emptyE) (simp_all add: escape_ascii_def ok_after_named)
  next
    case plain
    then have "char_of c \<noteq> CHR 0x5C" by (auto simp: char_of_eq_iff take_bit_nat_eq_self)
    with plain show ?thesis by (simp add: escape_ascii_def ok_after_other)
  next
    case bmp
    then have e: "escape_ascii c = CHR 0x5C # CHR ''u'' # format_04x c"
      by (simp add: escape_ascii_def)
    from ok_after_u[OF bmp(3) assms(2)] show ?thesis by (simp add: e)
  next
    case astral
    let ?n = "c - 0x10000"
    from assms(1) astral have n: "?n < 0x100000" by simp
    let ?s1 = "0xD800 + ?n div 1024"
    from astral have e: "escape_ascii c =
        CHR 0x5C # CHR ''u'' # format_04x ?s1
          @ CHR 0x5C # CHR ''u'' # format_04x (0xDC00 + ?n mod 1024)"
      by (simp add: escape_ascii_def Let_def high_surrogate_eq[OF n] low_surrogate_eq)
    from n have "?s1 < 0x10000" "\<not> low_surrogate ?s1" by (simp_all add: low_surrogate_def)
    then show ?thesis unfolding e by (simp add: ok_after_u)
  qed
qed

lemma scanstring_escaped:
  assumes "code_points s" "no_surrogate_pair s"
  shows "scanstring (concat (map escape_ascii s) @ CHR 0x22 # rest) = Some (s, rest)"
  using assms
proof (induction s rule: no_surrogate_pair.induct)
  case 1
  show ?case by (simp add: scanstring_quote)
next
  case (2 c)
  then have "c < 0x110000" by (simp add: code_points_def)
  then have "scanstring (escape_ascii c @ CHR 0x22 # rest) = scan_cons c (scanstring (CHR 0x22 # rest))"
    by (rule scanstring_escape_ascii) (simp add: ok_after_quote)
  then show ?case by (simp add: scanstring_quote scan_cons_def)
next
  case (3 c d s)
  let ?rest = "concat (map escape_ascii (d # s)) @ CHR 0x22 # rest"
  from "3.prems" have c: "c < 0x110000" and d: "d < 0x110000" and cp: "code_points (d # s)"
    and np: "no_surrogate_pair (d # s)" and hl: "\<not> (high_surrogate c \<and> low_surrogate d)"
    by (simp_all add: code_points_def)
  have "high_surrogate c \<longrightarrow> ok_after ?rest"
    using ok_after_escape_ascii[OF d, of "concat (map escape_ascii s) @ CHR 0x22 # rest"] hl
    by auto
  with c have "scanstring (escape_ascii c @ ?rest) = scan_cons c (scanstring ?rest)"
    by (rule scanstring_escape_ascii)
  with "3.IH"[OF cp np] show ?case by (simp add: scan_cons_def)
qed

lemma json_dumps_ret_split:
  \<open>json_dumps_ret t =
     ''{"text": "'' @ concat (map escape_ascii t) @ CHR 0x22 # '', "error_code": 0, "usage": {}}''\<close>
  by (simp add: json_dumps_ret_def encode_basestring_ascii_def)

lemma json_loads_dumps:
  assumes "code_points t" "no_surrogate_pair t"
  shows "json_loads_ret (json_dumps_ret t) = Inr \<lparr>ret_text = t, ret_error_code = 0, ret_usage = []\<rparr>"
  unfolding json_dumps_ret_split json_loads_ret_def
  using scanstring_escaped[OF assms] by simp

text \<open>The condition is needed: two surrogates written one after the other are read
  back as one code point.\<close>

lemma surrogates_joined:
  "json_loads_ret (json_dumps_ret [0xD83D, 0xDE00])
     = Inr \<lparr>ret_text = [0x1F600], ret_error_code = 0, ret_usage = []\<rparr>"
  by (simp add: json_dumps_ret_split json_loads_ret_def escape_ascii_def format_04x_def
        hex_digit_def scanstring.simps(2) decode_uXXXX_def hex_value_def scan_cons_def
        scanstring_quote)

lemma printable_json_dumps_ret: "list_all printable (json_dumps_ret t)"
proof -
  have "list_all printable (concat (map escape_ascii t))"
    using printable_escape_ascii by (induction t) simp_all
  then show ?thesis
    unfolding json_dumps_ret_split by (simp add: printable_def)
qed

lemma sentinel_not_in_json: "CHR 0x00 \<notin> set (json_dumps_ret t)"
proof
  assume "CHR 0x00 \<in> set (json_dumps_ret t)"
  with printable_json_dumps_ret[of t] have "printable (CHR 0x00)"
    by (simp add: list_all_iff)
  then show False by (simp add: printable_def)
qed

lemma bytes_decode_json: "bytes_decode (json_dumps_ret t) = Inr (json_dumps_ret t)"
proof -
  have "list_all (\<lambda>c. (of_char c :: nat) < 0x80) (json_dumps_ret t)"
    using printable_json_dumps_ret[of t] by (auto simp: list_all_iff printable_def)
  then show ?thesis by (simp add: bytes_decode_def)
qed

lemma split_frames_frame:
  "CHR 0x00 \<notin> set p \<Longrightarrow>
     split_frames cur (p @ CHR 0x00 # bs) =
       (case split_frames [] bs of (frames, rest) \<Rightarrow> ((cur @ p) # frames, rest))"
  by (induction p arbitrary: cur) auto

lemma split_frames_concat:
  "list_all (\<lambda>p. CHR 0x00 \<notin> set p) ps \<Longrightarrow>
     split_frames [] (concat (map (\<lambda>p. p @ [CHR 0x00]) ps)) = (ps, [])"
proof (induction ps)
  case Nil
  show ?case by simp
next
  case (Cons p ps)
  then have "CHR 0x00 \<notin> set p" and rest: "split_frames [] (concat (map (\<lambda>p. p @ [CHR 0x00]) ps)) = (ps, [])"
    by simp_all
  from split_frames_frame[OF this(1), of "[]" "concat (map (\<lambda>p. p @ [CHR 0x00]) ps)"] rest
  show ?case by simp
qed

lemma generate_stream_units:
  "fst (generate_stream E params) = map (\<lambda>t. json_dumps_ret t @ [CHR 0x00]) (stream_units E params)"
  by (auto simp: generate_stream_def stream_units_def frame_def split: sum.splits prod.splits)

lemma foldl_keeps_last:
  "foldl (\<lambda>x y. Some y) a xs = (if xs = [] then a else Some (last xs))"
  by (induction xs arbitrary: a) simp_all

lemma generate_last:
  assumes "generate_stream E params = (frames, None)" "frames \<noteq> []"
  shows "generate E params = json_loads_ret (json_dumps_ret (last (stream_units E params)))"
    and "butlast (last frames) = json_dumps_ret (last (stream_units E params))"
proof -
  from generate_stream_units[of E params] assms(1)
  have f: "frames = map (\<lambda>t. json_dumps_ret t @ [CHR 0x00]) (stream_units E params)" by simp
  with assms(2) have ne: "stream_units E params \<noteq> []" by auto
  from f ne have l: "last frames = json_dumps_ret (last (stream_units E params)) @ [CHR 0x00]"
    by (simp add: last_map)
  then show "butlast (last frames) = json_dumps_ret (last (stream_units E params))" by simp
  from assms l show "generate E params = json_loads_ret (json_dumps_ret (last (stream_units E params)))"
    by (simp add: generate_def foldl_keeps_last bytes_decode_json)
qed

section \<open>The claims about the sampling configuration\<close>

text \<open>
  Claim C6. Whatever the request supplies, the \<^verbatim>\<open>top_p\<close> handed to the engine is never 0:
  when the temperature is at most \<^verbatim>\<open>1e-5\<close> it is exactly 1.0, otherwise a supplied value
  below \<^verbatim>\<open>1e-5\<close> is raised to \<^verbatim>\<open>1e-5\<close> and any other value is passed on unchanged.
\<close>

theorem top_p_never_zero:
  assumes "sampling_setup E params = Inr (context, request_id, sp, echo)"
  shows "sp_top_p sp \<noteq> Finite 0
       \<and> (float_le (sp_temperature sp) float_1e_5 \<longrightarrow> sp_top_p sp = Finite 1)
       \<and> (\<forall>top_p. py_float E (py_get params ''top_p'' (PFloat (Finite 1))) = Inr top_p \<longrightarrow>
            \<not> float_le (sp_temperature sp) float_1e_5 \<longrightarrow>
            sp_top_p sp = (if float_lt top_p float_1e_5 then float_1e_5 else top_p))"
proof -
  from assms obtain temperature top_p where
    "py_float E (py_get params ''top_p'' (PFloat (Finite 1))) = Inr top_p"
    "sp_temperature sp = temperature" "sp_top_p sp = normalize_top_p temperature top_p"
    by (rule sampling_setup_Inr)
  then show ?thesis
    using normalize_top_p_nonzero[of temperature top_p]
    by (auto simp: normalize_top_p_cases)
qed

text \<open>The two examples of the specification: temperature 0 with top_p 0.3 gives 1.0, and
  temperature 0.7 with top_p 0 gives \<^verbatim>\<open>1e-5\<close>.\<close>

theorem top_p_never_zero_witness:
  "(\<exists>context request_id sp echo.
      sampling_setup test_env
        (test_params(''temperature'' \<mapsto> PInt 0,
                     ''top_p'' \<mapsto> PFloat (Finite (5404319552844595 / 2 ^ 54))))
        = Inr (context, request_id, sp, echo)
      \<and> sp_top_p sp = Finite 1 \<and> sp_top_p sp \<noteq> Finite 0)
   \<and> (\<exists>context request_id sp echo.
      sampling_setup test_env
        (test_params(''temperature'' \<mapsto> PFloat (Finite (3152519739159347 / 2 ^ 52)),
                     ''top_p'' \<mapsto> PInt 0))
        = Inr (context, request_id, sp, echo)
      \<and> sp_top_p sp = float_1e_5 \<and> sp_top_p sp \<noteq> Finite 0)"
proof -
  let ?p1 = "test_params(''temperature'' \<mapsto> PInt 0,
                         ''top_p'' \<mapsto> PFloat (Finite (5404319552844595 / 2 ^ 54)))"
  let ?p2 = "test_params(''temperature'' \<mapsto> PFloat (Finite (3152519739159347 / 2 ^ 52)),
                         ''top_p'' \<mapsto> PInt 0)"
  have "\<exists>c r sp e. sampling_setup test_env ?p1 = Inr (c, r, sp, e) \<and> sp_temperature sp = Finite 0"
    by (simp add: setup_defs test_defs)
  then obtain c1 r1 sp1 e1 where s1: "sampling_setup test_env ?p1 = Inr (c1, r1, sp1, e1)"
    and t1: "sp_temperature sp1 = Finite 0" by blast
  from top_p_never_zero[OF s1] t1 have a1: "sp_top_p sp1 = Finite 1 \<and> sp_top_p sp1 \<noteq> Finite 0"
    by (simp add: float_le_def float_1e_5_def)
  have "\<exists>c r sp e. sampling_setup test_env ?p2 = Inr (c, r, sp, e)
          \<and> sp_temperature sp = Finite (3152519739159347 / 2 ^ 52)"
    by (simp add: setup_defs test_defs)
  then obtain c2 r2 sp2 e2 where s2: "sampling_setup test_env ?p2 = Inr (c2, r2, sp2, e2)"
    and t2: "sp_temperature sp2 = Finite (3152519739159347 / 2 ^ 52)" by blast
  have f: "py_float test_env (py_get ?p2 ''top_p'' (PFloat (Finite 1))) = Inr (Finite 0)"
    by (simp add: py_get_def)
  from top_p_never_zero[OF s2] t2 f have a2: "sp_top_p sp2 = float_1e_5 \<and> sp_top_p sp2 \<noteq> Finite 0"
    by (simp add: float_le_def float_1e_5_def)
  from s1 a1 s2 a2 show ?thesis by blast
qed

text \<open>
  Claim C7. An absent stop, a single string and a list of strings each normalise to a
  set of strings: the empty set, the set of that string (empty for the empty string) and
  the set of the list's elements. \<^verbatim>\<open>"STOP"\<close> and \<^verbatim>\<open>["STOP"]\<close> give the same one-element set,
  and so the same sampling configuration.
\<close>

theorem stop_normalized:
  "handle_stop_str PNone = Inr {}
   \<and> handle_stop_str (PStr s) = Inr (if s = [] then {} else {PStr s})
   \<and> handle_stop_str (PList (map PStr ss)) = Inr (PStr ` set ss)
   \<and> handle_stop_str (PStr (py_str ''STOP'')) = Inr {PStr (py_str ''STOP'')}
   \<and> handle_stop_str (PList [PStr (py_str ''STOP'')]) = Inr {PStr (py_str ''STOP'')}
   \<and> sampling_setup E (params(''stop'' \<mapsto> PStr (py_str ''STOP'')))
       = sampling_setup E (params(''stop'' \<mapsto> PList [PStr (py_str ''STOP'')]))"
proof -
  have "sampling_setup E (params(''stop'' \<mapsto> PStr (py_str ''STOP'')))
       = sampling_setup E (params(''stop'' \<mapsto> PList [PStr (py_str ''STOP'')]))"
    by (simp add: sampling_setup_def py_get_def get_stop_token_ids_def py_str_def Let_def
          cong: option.case_cong sum.case_cong)
  then show ?thesis using handle_stop_str_strings[of ss]
    by (simp add: py_str_def)
qed

text \<open>
  Claim C8. When the sampling configuration is built, every stop token id the request
  supplies (other than \<^verbatim>\<open>None\<close>) has been decoded and its string is in the stop set; so
  is the decoded end-of-sequence id of the tokenizer, when it has one, whether or not the
  request listed it; and the stop strings are in the same set.
\<close>

theorem stop_token_ids_merged:
  assumes "sampling_setup E params = Inr (context, request_id, sp, echo)"
  shows "(\<forall>xs. py_get params ''stop_token_ids'' PNone = PList xs \<longrightarrow>
            (\<forall>tid \<in> set xs. tid \<noteq> PNone \<longrightarrow>
               (\<exists>s. tokenizer_decode E tid = Inr s \<and> PStr s \<in> sp_stop sp)))
       \<and> (\<forall>eos. eos_token_id E = Some eos \<longrightarrow>
            (\<exists>s. tokenizer_decode E (PInt eos) = Inr s \<and> PStr s \<in> sp_stop sp))
       \<and> (\<forall>stop0. handle_stop_str (py_get params ''stop'' PNone) = Inr stop0 \<longrightarrow> stop0 \<subseteq> sp_stop sp)"
proof -
  from assms obtain stop_token_ids stop0 tids where
    g: "get_stop_token_ids E params = Inr stop_token_ids"
    and h: "handle_stop_str (py_get params ''stop'' PNone) = Inr stop0"
    and i: "py_iter stop_token_ids = Inr tids"
    and a: "add_stop_tokens E tids stop0 = Inr (sp_stop sp)"
    by (rule sampling_setup_Inr)
  note snd = add_stop_tokens_sound[OF a]
  have mem: "\<exists>s. tokenizer_decode E tid = Inr s \<and> PStr s \<in> sp_stop sp"
    if "tid \<in> set tids" "tid \<noteq> PNone" for tid
  proof -
    from snd that obtain s where s: "tokenizer_decode E tid = Inr s" by blast
    with snd that have "PStr s \<in> sp_stop sp" by blast
    with s show ?thesis by blast
  qed
  have 1: "\<exists>s. tokenizer_decode E tid = Inr s \<and> PStr s \<in> sp_stop sp"
    if "py_get params ''stop_token_ids'' PNone = PList xs" "tid \<in> set xs" "tid \<noteq> PNone" for xs tid
  proof -
    from get_stop_token_ids_list[OF g that(1)] i that(2) have "tid \<in> set tids" by auto
    then show ?thesis using that(3) by (rule mem)
  qed
  have 2: "\<exists>s. tokenizer_decode E (PInt eos) = Inr s \<and> PStr s \<in> sp_stop sp"
    if "eos_token_id E = Some eos" for eos
  proof -
    from get_stop_token_ids_eos[OF g that] i have "PInt eos \<in> set tids" by auto
    then show ?thesis by (rule mem) simp
  qed
  have 3: "stop0 \<subseteq> sp_stop sp" using snd by blast
  from 1 2 3 h show ?thesis by auto
qed

theorem stop_token_ids_merged_witness:
  "\<exists>context request_id sp echo.
      sampling_setup test_env (test_params(''stop_token_ids'' \<mapsto> PList [PInt 13, PNone]))
        = Inr (context, request_id, sp, echo)
      \<and> PStr (py_str ''###'') \<in> sp_stop sp \<and> PStr (py_str ''</s>'') \<in> sp_stop sp"
proof -
  let ?p = "test_params(''stop_token_ids'' \<mapsto> PList [PInt 13, PNone])"
  have "\<exists>c r sp e. sampling_setup test_env ?p = Inr (c, r, sp, e)"
    by (simp add: setup_defs test_defs)
  then obtain c r sp e where s: "sampling_setup test_env ?p = Inr (c, r, sp, e)" by blast
  have g: "py_get ?p ''stop_token_ids'' PNone = PList [PInt 13, PNone]"
    by (simp add: py_get_def)
  have d13: "tokenizer_decode test_env (PInt 13) = Inr (py_str ''###'')"
    and d2: "tokenizer_decode test_env (PInt 2) = Inr (py_str ''</s>'')"
    and eos: "eos_token_id test_env = Some 2"
    by (simp_all add: test_env_def test_decode_def)
  from stop_token_ids_merged[OF s] g have
    "\<exists>t. tokenizer_decode test_env (PInt 13) = Inr t \<and> PStr t \<in> sp_stop sp" by auto
  with d13 have m13: "PStr (py_str ''###'') \<in> sp_stop sp" by auto
  from stop_token_ids_merged[OF s] eos have
    "\<exists>t. tokenizer_decode test_env (PInt 2) = Inr t \<and> PStr t \<in> sp_stop sp" by auto
  with d2 have m2: "PStr (py_str ''</s>'') \<in> sp_stop sp" by auto
  from s m13 m2 show ?thesis by blast
qed



section \<open>The claims about the stream\<close>

text \<open>
  Claim C9. Every frame \<^verbatim>\<open>generate_stream\<close> yields is the JSON text of one unit
  (\<^verbatim>\<open>text\<close>, \<^verbatim>\<open>error_code\<close> 0, an empty \<^verbatim>\<open>usage\<close>) followed by one sentinel byte; the
  sentinel occurs nowhere in the JSON text; so splitting the concatenated stream at the
  sentinel gives back the JSON texts of the units, one per unit and in order, with
  nothing left over. Parsing them gives back the units themselves whenever no text has
  a high surrogate directly before a low one.
\<close>

theorem sentinel_framing:
  "fst (generate_stream E params) = map (\<lambda>t. json_dumps_ret t @ [CHR 0x00]) (stream_units E params)
   \<and> list_all (\<lambda>t. CHR 0x00 \<notin> set (json_dumps_ret t)) (stream_units E params)
   \<and> split_frames [] (concat (fst (generate_stream E params)))
       = (map json_dumps_ret (stream_units E params), [])
   \<and> (list_all (\<lambda>t. code_points t \<and> no_surrogate_pair t) (stream_units E params) \<longrightarrow>
        map json_loads_ret (fst (split_frames [] (concat (fst (generate_stream E params)))))
        = map (\<lambda>t. Inr \<lparr>ret_text = t, ret_error_code = 0, ret_usage = []\<rparr>) (stream_units E params))"
proof -
  let ?units = "stream_units E params"
  have frames: "fst (generate_stream E params) = map (\<lambda>t. json_dumps_ret t @ [CHR 0x00]) ?units"
    by (rule generate_stream_units)
  have free: "list_all (\<lambda>t. CHR 0x00 \<notin> set (json_dumps_ret t)) ?units"
    by (simp add: list_all_iff sentinel_not_in_json)
  then have "list_all (\<lambda>p. CHR 0x00 \<notin> set p) (map json_dumps_ret ?units)"
    by (simp add: list_all_iff)
  then have "split_frames [] (concat (map (\<lambda>p. p @ [CHR 0x00]) (map json_dumps_ret ?units)))
      = (map json_dumps_ret ?units, [])"
    by (rule split_frames_concat)
  then have sp: "split_frames [] (concat (fst (generate_stream E params)))
      = (map json_dumps_ret ?units, [])"
    by (simp add: frames comp_def)
  have rd: "map json_loads_ret (fst (split_frames [] (concat (fst (generate_stream E params)))))
        = map (\<lambda>t. Inr \<lparr>ret_text = t, ret_error_code = 0, ret_usage = []\<rparr>) ?units"
    if "list_all (\<lambda>t. code_points t \<and> no_surrogate_pair t) ?units"
    using that by (simp add: sp list_all_iff json_loads_dumps)
  from frames free sp rd show ?thesis by blast
qed

theorem sentinel_framing_witness:
  "map json_loads_ret (fst (split_frames [] (concat (fst (generate_stream test_env test_params)))))
     = [Inr \<lparr>ret_text = py_str ''USER:Hi;BOT:;Hel'', ret_error_code = 0, ret_usage = []\<rparr>,
        Inr \<lparr>ret_text = py_str ''USER:Hi;BOT:;Hello'', ret_error_code = 0, ret_usage = []\<rparr>]"
proof -
  have u: "stream_units test_env test_params = [py_str ''USER:Hi;BOT:;Hel'', py_str ''USER:Hi;BOT:;Hello'']"
    by (simp add: stream_units_def setup_defs test_defs text_outputs_def)
  have "list_all (\<lambda>t. code_points t \<and> no_surrogate_pair t) (stream_units test_env test_params)"
    unfolding u by (simp add: py_str_def code_points_def high_surrogate_def)
  with sentinel_framing[of test_env test_params]
  have "map json_loads_ret (fst (split_frames [] (concat (fst (generate_stream test_env test_params)))))
      = map (\<lambda>t. Inr \<lparr>ret_text = t, ret_error_code = 0, ret_usage = []\<rparr>)
          (stream_units test_env test_params)"
    by blast
  then show ?thesis unfolding u by simp
qed

text \<open>
  Claim C3. When the stream of \<^verbatim>\<open>generate_stream\<close> ends normally after at least one
  frame, \<^verbatim>\<open>generate\<close> on the same parameters returns what \<^verbatim>\<open>json.loads\<close> reads from the
  last frame without its sentinel, and that document is the JSON text of the last unit:
  the final text of the two modes is the same. (An engine that yields nothing leaves
  \<^verbatim>\<open>x\<close> unbound, and an engine that raises makes both modes raise.)
\<close>

theorem generate_returns_last_unit:
  assumes "generate_stream E params = (frames, None)" "frames \<noteq> []"
  shows "generate E params = json_loads_ret (butlast (last frames))
       \<and> butlast (last frames) = json_dumps_ret (last (stream_units E params))
       \<and> (code_points (last (stream_units E params))
            \<and> no_surrogate_pair (last (stream_units E params)) \<longrightarrow>
          generate E params
            = Inr \<lparr>ret_text = last (stream_units E params), ret_error_code = 0, ret_usage = []\<rparr>)"
proof -
  note g = generate_last[OF assms]
  from g show ?thesis by (simp add: json_loads_dumps)
qed

theorem generate_returns_last_unit_witness:
  "generate_stream test_env test_params
     = ([json_dumps_ret (py_str ''USER:Hi;BOT:;Hel'') @ [CHR 0x00],
         json_dumps_ret (py_str ''USER:Hi;BOT:;Hello'') @ [CHR 0x00]], None)
   \<and> generate test_env test_params
     = Inr \<lparr>ret_text = py_str ''USER:Hi;BOT:;Hello'', ret_error_code = 0, ret_usage = []\<rparr>"
proof -
  let ?frames = "[json_dumps_ret (py_str ''USER:Hi;BOT:;Hel'') @ [CHR 0x00],
         json_dumps_ret (py_str ''USER:Hi;BOT:;Hello'') @ [CHR 0x00]]"
  have u: "stream_units test_env test_params = [py_str ''USER:Hi;BOT:;Hel'', py_str ''USER:Hi;BOT:;Hello'']"
    by (simp add: stream_units_def setup_defs test_defs text_outputs_def)
  have s: "generate_stream test_env test_params = (?frames, None)"
    by (simp add: generate_stream_def setup_defs test_defs text_outputs_def frame_def)
  have ne: "?frames \<noteq> []" by simp
  have ok: "code_points (last (stream_units test_env test_params))
      \<and> no_surrogate_pair (last (stream_units test_env test_params))"
    unfolding u by (simp add: py_str_def code_points_def high_surrogate_def)
  from generate_returns_last_unit[OF s ne] ok
  have "generate test_env test_params
      = Inr \<lparr>ret_text = last (stream_units test_env test_params), ret_error_code = 0, ret_usage = []\<rparr>"
    by blast
  then have "generate test_env test_params
      = Inr \<lparr>ret_text = py_str ''USER:Hi;BOT:;Hello'', ret_error_code = 0, ret_usage = []\<rparr>"
    unfolding u by simp
  with s show ?thesis by blast
qed

section \<open>The invariant is kept\<close>

declare handler_ok.simps [simp del]

lemma holders_update:
  "i < length hs \<Longrightarrow>
     length (filter holding (hs[i := h])) + (if holding (hs ! i) then 1 else 0)
       = length (filter holding hs) + (if holding h then 1 else 0)"
proof (induction hs arbitrary: i)
  case Nil
  then show ?case by simp
next
  case (Cons x xs)
  show ?case
  proof (cases i)
    case 0
    then show ?thesis by simp
  next
    case (Suc j)
    with Cons.prems have "j < length xs" by simp
    from Cons.IH[OF this] Suc show ?thesis by simp
  qed
qed

lemma issued_mono: "issued n r \<Longrightarrow> n \<le> n' \<Longrightarrow> issued n' r"
  by (auto simp: issued_def)

lemma issued_fresh: "issued n r \<Longrightarrow> r \<noteq> PInt (int n)"
  by (auto simp: issued_def)

lemma handler_ok_issued:
  "handler_ok n ab h \<Longrightarrow> request_id_of (h_phase h) = Some r \<Longrightarrow> issued n r"
  by (cases "h_phase h") (simp_all add: handler_ok.simps)

lemma count_list_append_others:
  "\<forall>x \<in> set rs. x \<noteq> r \<Longrightarrow> count_list (ab @ rs) r = count_list ab r"
  by (induction rs arbitrary: ab) (simp_all add: count_list_append)

lemma handler_ok_others:
  assumes "handler_ok n ab h" "n \<le> n'" "\<forall>r \<in> set rs. request_id_of (h_phase h) \<noteq> Some r"
  shows "handler_ok n' (ab @ rs) h"
proof (cases "request_id_of (h_phase h)")
  case None
  with assms(1) show ?thesis by (cases "h_phase h") (simp_all add: handler_ok.simps)
next
  case (Some r)
  with assms(3) have "\<forall>x \<in> set rs. x \<noteq> r" by auto
  then have c: "count_list (ab @ rs) r = count_list ab r" by (rule count_list_append_others)
  from handler_ok_issued[OF assms(1) Some] assms(2) have i: "issued n' r" by (rule issued_mono)
  from assms(1) Some c i show ?thesis
    by (cases "h_phase h") (auto simp: handler_ok.simps)
qed


lemma distinct_idsD:
  assumes "distinct_ids hs" "i < length hs" "j < length hs" "i \<noteq> j"
    "request_id_of (h_phase (hs ! i)) = Some r"
  shows "request_id_of (h_phase (hs ! j)) \<noteq> Some r"
proof -
  from assms(1-4) have "request_id_of (h_phase (hs ! i)) = None
      \<or> request_id_of (h_phase (hs ! i)) \<noteq> request_id_of (h_phase (hs ! j))"
    unfolding distinct_ids_def by blast
  with assms(5) show ?thesis by auto
qed

lemma worker_inv_step:
  assumes inv: "worker_inv E w" and i: "i < length (handlers w)"
    and hs: "handlers w' = (handlers w)[i := h']"
    and n: "uuid_count w \<le> uuid_count w'"
    and ab: "aborted w' = aborted w @ rs"
    and rs: "\<forall>r \<in> set rs. request_id_of (h_phase (handlers w ! i)) = Some r"
    and new: "handler_ok (uuid_count w') (aborted w') h'"
    and rid: "request_id_of (h_phase h') = request_id_of (h_phase (handlers w ! i))
              \<or> request_id_of (h_phase h') = Some (PInt (int (uuid_count w)))"
    and sem: "sem_value E w' + (if holding h' then 1 else 0)
              = sem_value E w + (if holding (handlers w ! i) then 1 else 0)"
  shows "worker_inv E w'"
proof -
  let ?hs = "handlers w" and ?n = "uuid_count w" and ?ab = "aborted w"
  from inv have ok: "\<And>j. j < length ?hs \<Longrightarrow> handler_ok ?n ?ab (?hs ! j)"
    and cap: "sem_value E w + holders w = limit_worker_concurrency E"
    and dist: "distinct_ids ?hs"
    and iss: "list_all (issued ?n) ?ab"
    by (simp_all add: worker_inv_def list_all_length)
  have other: "request_id_of (h_phase (?hs ! j)) \<noteq> Some r"
    if "j < length ?hs" "j \<noteq> i" "r \<in> set rs" for j r
  proof -
    from rs that(3) have "request_id_of (h_phase (?hs ! i)) = Some r" by simp
    with dist i that(1,2) show ?thesis by (intro distinct_idsD[of "handlers w" i j]) auto
  qed
  have 1: "list_all (handler_ok (uuid_count w') (aborted w')) (handlers w')"
    unfolding list_all_length
  proof (intro allI impI)
    fix j assume j: "j < length (handlers w')"
    show "handler_ok (uuid_count w') (aborted w') (handlers w' ! j)"
    proof (cases "j = i")
      case True
      with i new hs show ?thesis by simp
    next
      case False
      from j hs have jl: "j < length ?hs" by simp
      have "handler_ok (uuid_count w') (?ab @ rs) (?hs ! j)"
        using ok[OF jl] n other[OF jl False] by (intro handler_ok_others) auto
      with False hs ab show ?thesis by simp
    qed
  qed
  have 2: "sem_value E w' + holders w' = limit_worker_concurrency E"
    using holders_update[OF i, of h'] sem cap hs by (simp add: holders_def)
  have 3: "distinct_ids (handlers w')"
    unfolding distinct_ids_def
  proof (intro allI impI)
    fix j k assume j: "j < length (handlers w')" and k: "k < length (handlers w')" and jk: "j \<noteq> k"
    from j k hs have jl: "j < length ?hs" and kl: "k < length ?hs" by simp_all
    let ?r = "\<lambda>h. request_id_of (h_phase h)"
    have fresh: "?r (?hs ! m) \<noteq> Some (PInt (int ?n))" if "m < length ?hs" for m
    proof
      assume "?r (?hs ! m) = Some (PInt (int ?n))"
      from handler_ok_issued[OF ok[OF that] this] issued_fresh show False by blast
    qed
    show "?r (handlers w' ! j) = None \<or> ?r (handlers w' ! j) \<noteq> ?r (handlers w' ! k)"
    proof (cases "j = i")
      case True
      with jk have ki: "k \<noteq> i" by simp
      from rid show ?thesis
      proof
        assume "?r h' = ?r (?hs ! i)"
        with dist i kl ki True hs show ?thesis unfolding distinct_ids_def
          by (metis nth_list_update_eq nth_list_update_neq)
      next
        assume "?r h' = Some (PInt (int ?n))"
        with fresh[OF kl] True ki hs i show ?thesis by simp
      qed
    next
      case False
      show ?thesis
      proof (cases "k = i")
        case True
        from rid show ?thesis
        proof
          assume "?r h' = ?r (?hs ! i)"
          with dist i jl False True hs show ?thesis unfolding distinct_ids_def
            by (metis nth_list_update_eq nth_list_update_neq)
        next
          assume "?r h' = Some (PInt (int ?n))"
          with fresh[OF jl] True False hs i show ?thesis by auto
        qed
      next
        case False
        with \<open>j \<noteq> i\<close> dist jl kl jk hs show ?thesis unfolding distinct_ids_def by simp
      qed
    qed
  qed
  have 4: "list_all (issued (uuid_count w')) (aborted w')"
  proof -
    have "issued (uuid_count w') r" if "r \<in> set rs" for r
    proof -
      from rs that have "request_id_of (h_phase (?hs ! i)) = Some r" by simp
      from handler_ok_issued[OF ok[OF i] this] n show ?thesis by (rule issued_mono)
    qed
    moreover have "issued (uuid_count w') r" if "r \<in> set ?ab" for r
      using iss that n by (auto simp: list_all_iff intro: issued_mono)
    ultimately show ?thesis using ab by (auto simp: list_all_iff)
  qed
  from 1 2 3 4 show ?thesis by (simp add: worker_inv_def)
qed

lemma worker_inv_arrive:
  assumes "worker_inv E w" "h_acquired h = 0" "h_released h = 0"
    "request_id_of (h_phase h) = None"
  shows "worker_inv E (w\<lparr>handlers := handlers w @ [h]\<rparr>)"
proof -
  from assms(2-4) have ok: "handler_ok (uuid_count w) (aborted w) h"
    by (cases "h_phase h") (simp_all add: handler_ok.simps)
  from assms(2,3) have nh: "\<not> holding h" by (simp add: holding_def)
  have d: "distinct_ids (handlers w @ [h])"
    using assms(1,4) unfolding worker_inv_def distinct_ids_def
    by (auto simp: nth_append)
  from assms(1) ok nh d show ?thesis
    by (simp add: worker_inv_def holders_def sem_value_def)
qed

lemma worker_inv_init: "worker_inv E init_worker"
  by (simp add: worker_inv_def init_worker_def holders_def sem_value_def distinct_ids_def)

lemma worker_inv_handler:
  "worker_inv E w \<Longrightarrow> i < length (handlers w) \<Longrightarrow>
     handler_ok (uuid_count w) (aborted w) (handlers w ! i)"
  by (simp add: worker_inv_def list_all_length)

lemma fresh_count: "list_all (issued n) ab \<Longrightarrow> count_list ab (PInt (int n)) = 0"
  by (induction ab) (auto simp: issued_def)

lemma issued_next: "issued (Suc n) (PInt (int n))"
  by (auto simp: issued_def)

lemmas step_simps =
  set_handler_def handler_ok.simps holding_def sem_value_def create_background_tasks_def

lemma worker_inv_local:
  assumes inv: "worker_inv E w" and i: "i < length (handlers w)"
    and new: "handler_ok (uuid_count w) (aborted w) h'"
    and rid: "request_id_of (h_phase h') = request_id_of (h_phase (handlers w ! i))"
    and hold: "holding h' = holding (handlers w ! i)"
  shows "worker_inv E (set_handler i h' w)"
  by (rule worker_inv_step[OF inv i, where h' = h' and rs = "[]"])
     (use new rid hold in \<open>simp_all add: set_handler_def sem_value_def\<close>)

lemma admit_inv:
  assumes inv: "worker_inv E w" and i: "i < length (handlers w)"
    and ph: "h_phase (handlers w ! i) = Awaiting_semaphore params"
  shows "worker_inv E (admit E i (handlers w ! i) params w)"
proof -
  let ?h = "handlers w ! i" and ?v = "sem_value E w"
  from worker_inv_handler[OF inv i] ph have c: "h_acquired ?h = 0" "h_released ?h = 0"
    by (simp_all add: handler_ok.simps)
  from inv have fr: "count_list (aborted w) (PInt (int (uuid_count w))) = 0"
    by (simp add: worker_inv_def fresh_count)
  show ?thesis
  proof (cases "0 < ?v")
    case False
    then have a: "admit E i ?h params w = w\<lparr>semaphore := Some ?v\<rparr>"
      by (simp add: admit_def acquire_worker_semaphore_def sem_value_def)
    show ?thesis unfolding a
      by (rule worker_inv_step[OF inv i, where h' = ?h and rs = "[]"])
         (use worker_inv_handler[OF inv i] in \<open>simp_all add: sem_value_def\<close>)
  next
    case True
    let ?rid = "PInt (int (uuid_count w))"
    let ?p = "params(''request_id'' \<mapsto> ?rid)"
    let ?h' = "?h\<lparr>h_acquired := Suc (h_acquired ?h),
                   h_phase := (case h_endpoint ?h of
                       Worker_generate_stream \<Rightarrow> Streaming ?rid ?p 0 (create_background_tasks ?rid)
                     | Worker_generate \<Rightarrow> Generating ?rid ?p 0)\<rparr>"
    let ?w2 = "w\<lparr>semaphore := Some (?v - 1), uuid_count := Suc (uuid_count w)\<rparr>"
    from True have a: "admit E i ?h params w = set_handler i ?h' ?w2"
      by (simp add: admit_def acquire_worker_semaphore_def sem_value_def random_uuid_def Let_def)
    show ?thesis unfolding a
      by (rule worker_inv_step[OF inv i, where h' = ?h' and rs = "[]"])
         (use True c fr ph issued_next in
           \<open>auto simp: step_simps split: endpoint.splits\<close>)
  qed
qed


lemma stream_step_inv:
  assumes inv: "worker_inv E w" and i: "i < length (handlers w)"
    and ph: "h_phase (handlers w ! i) = Streaming request_id params k background"
  shows "worker_inv E (stream_step E i (handlers w ! i) request_id params k background w)"
proof -
  let ?h = "handlers w ! i"
  note ok = worker_inv_handler[OF inv i]
  obtain frames err where g: "generate_stream E params = (frames, err)"
    by (cases "generate_stream E params")
  have loc: "worker_inv E (set_handler i (?h\<lparr>h_sent := snt, h_phase := p'\<rparr>) w)"
    if "p' = Streaming request_id params (Suc k) background \<or> p' = Background request_id background
        \<or> p' = Raised request_id e" for p' snt e
    by (rule worker_inv_local[OF inv i]) (use ok ph that in \<open>auto simp: step_simps\<close>)
  show ?thesis
  proof (cases "k < length frames")
    case True
    with g loc[of "Streaming request_id params (Suc k) background" _ "h_sent ?h @ [frames ! k]"]
    show ?thesis by (simp add: stream_step_def)
  next
    case False
    show ?thesis
    proof (cases err)
      case None
      with False g loc[of "Background request_id background" _ "h_sent ?h"]
      show ?thesis by (simp add: stream_step_def)
    next
      case (Some e)
      with False g loc[of "Raised request_id e" e "h_sent ?h"]
      show ?thesis by (simp add: stream_step_def)
    qed
  qed
qed

lemma generate_step_inv:
  assumes inv: "worker_inv E w" and i: "i < length (handlers w)"
    and ph: "h_phase (handlers w ! i) = Generating request_id params k"
  shows "worker_inv E (generate_step E i (handlers w ! i) request_id params k w)"
proof -
  let ?h = "handlers w ! i"
  note ok = worker_inv_handler[OF inv i]
  have loc: "worker_inv E (set_handler i (?h\<lparr>h_phase := p'\<rparr>) w)"
    if "p' = Generating request_id params (Suc k) \<or> p' = Raised request_id e" for p' e
    by (rule worker_inv_local[OF inv i]) (use ok ph that in \<open>auto simp: step_simps\<close>)
  show ?thesis
  proof (cases "k < length (fst (generate_stream E params))")
    case True
    with loc[of "Generating request_id params (Suc k)"] show ?thesis
      by (simp add: generate_step_def)
  next
    case False
    show ?thesis
    proof (cases "generate E params")
      case (Inl e)
      with False loc[of "Raised request_id e" e] show ?thesis
        by (simp add: generate_step_def)
    next
      case (Inr out)
      show ?thesis
      proof (cases "semaphore w")
        case None
        with False Inr loc[of "Raised request_id AttributeError" AttributeError] show ?thesis
          by (simp add: generate_step_def release_worker_semaphore_def)
      next
        case (Some v)
        let ?h' = "?h\<lparr>h_released := Suc (h_released ?h), h_response := Some out,
                       h_phase := Finished request_id\<rparr>"
        let ?w1 = "w\<lparr>semaphore := Some (v + 1), aborted := aborted w @ [request_id]\<rparr>"
        from False Inr Some have a:
          "generate_step E i ?h request_id params k w = set_handler i ?h' ?w1"
          by (simp add: generate_step_def release_worker_semaphore_def)
        show ?thesis unfolding a
          by (rule worker_inv_step[OF inv i, where h' = ?h' and rs = "[request_id]"])
             (use ok ph Some in \<open>auto simp: step_simps\<close>)
      qed
    qed
  qed
qed

lemma background_step_inv:
  assumes inv: "worker_inv E w" and i: "i < length (handlers w)"
    and ph: "h_phase (handlers w ! i) = Background request_id (t # ts)"
  shows "worker_inv E (background_step i (handlers w ! i) request_id t ts w)"
proof -
  let ?h = "handlers w ! i"
  note ok = worker_inv_handler[OF inv i]
  from ok ph consider
      (release) "h_released ?h = 0" "t = Release_worker_semaphore" "ts = [Abort_request request_id]"
    | (abort) "h_released ?h = 1" "t = Abort_request request_id" "ts = []"
    by (auto simp: step_simps)
  then show ?thesis
  proof cases
    case release
    show ?thesis
    proof (cases "semaphore w")
      case None
      have "worker_inv E (set_handler i (?h\<lparr>h_phase := Raised request_id AttributeError\<rparr>) w)"
        by (rule worker_inv_local[OF inv i]) (use ok ph release in \<open>auto simp: step_simps\<close>)
      with None release show ?thesis
        by (simp add: background_step_def release_worker_semaphore_def)
    next
      case (Some v)
      let ?h' = "?h\<lparr>h_released := Suc (h_released ?h),
                     h_phase := Background request_id [Abort_request request_id]\<rparr>"
      let ?w1 = "w\<lparr>semaphore := Some (v + 1)\<rparr>"
      from release Some have a:
        "background_step i ?h request_id t ts w = set_handler i ?h' ?w1"
        by (simp add: background_step_def release_worker_semaphore_def)
      show ?thesis unfolding a
        by (rule worker_inv_step[OF inv i, where h' = ?h' and rs = "[]"])
           (use ok ph Some release in \<open>auto simp: step_simps\<close>)
    qed
  next
    case abort
    let ?h' = "?h\<lparr>h_phase := Finished request_id\<rparr>"
    let ?w1 = "w\<lparr>aborted := aborted w @ [request_id]\<rparr>"
    from abort have a: "background_step i ?h request_id t ts w = set_handler i ?h' ?w1"
      by (simp add: background_step_def)
    show ?thesis unfolding a
      by (rule worker_inv_step[OF inv i, where h' = ?h' and rs = "[request_id]"])
         (use ok ph abort in \<open>auto simp: step_simps\<close>)
  qed
qed

lemma new_handler_fresh:
  "h_acquired (new_handler E ep params) = 0"
  "h_released (new_handler E ep params) = 0"
  "request_id_of (h_phase (new_handler E ep params)) = None"
  by (simp_all add: new_handler_def split: sum.splits)

lemma exec_inv:
  assumes inv: "worker_inv E w" and ex: "exec E ev w = Some w'"
  shows "worker_inv E w'"
proof (cases ev)
  case (Request ep params)
  with ex have "w' = w\<lparr>handlers := handlers w @ [new_handler E ep params]\<rparr>"
    by (simp add: exec_def)
  with worker_inv_arrive[OF inv new_handler_fresh] show ?thesis by simp
next
  case (Acquire i)
  with ex obtain params where "i < length (handlers w)"
    "h_phase (handlers w ! i) = Awaiting_semaphore params"
    "w' = admit E i (handlers w ! i) params w"
    by (auto simp: exec_def split: if_splits phase.splits)
  with admit_inv[OF inv] show ?thesis by simp
next
  case (Pull i)
  with ex have i: "i < length (handlers w)" by (simp add: exec_def split: if_splits)
  show ?thesis
  proof (cases "h_phase (handlers w ! i)")
    case (Streaming request_id params k background)
    with ex Pull i stream_step_inv[OF inv i Streaming] show ?thesis by (simp add: exec_def)
  next
    case (Generating request_id params k)
    with ex Pull i generate_step_inv[OF inv i Generating] show ?thesis by (simp add: exec_def)
  qed (use ex Pull i in \<open>simp_all add: exec_def\<close>)
next
  case (Disconnect i)
  with ex have i: "i < length (handlers w)" by (simp add: exec_def split: if_splits)
  note ok = worker_inv_handler[OF inv i]
  show ?thesis
  proof (cases "h_phase (handlers w ! i)")
    case (Streaming request_id params k background)
    have "worker_inv E (set_handler i ((handlers w ! i)\<lparr>h_phase := Background request_id background\<rparr>) w)"
      by (rule worker_inv_local[OF inv i]) (use ok Streaming in \<open>auto simp: step_simps\<close>)
    with ex Disconnect i Streaming show ?thesis by (simp add: exec_def)
  qed (use ex Disconnect i in \<open>simp_all add: exec_def\<close>)
next
  case (Cancel i)
  with ex have i: "i < length (handlers w)" by (simp add: exec_def split: if_splits)
  note ok = worker_inv_handler[OF inv i]
  have loc: "worker_inv E (set_handler i ((handlers w ! i)\<lparr>h_phase := p'\<rparr>) w)"
    if "(\<exists>params. h_phase (handlers w ! i) = Awaiting_semaphore params) \<and> p' = Rejected CancelledError
        \<or> request_id_of (h_phase (handlers w ! i)) = Some request_id
           \<and> p' = Raised request_id CancelledError
           \<and> (\<exists>params k. h_phase (handlers w ! i) = Generating request_id params k
                \<or> (\<exists>background. h_phase (handlers w ! i) = Streaming request_id params k background))"
    for p' request_id
    by (rule worker_inv_local[OF inv i]) (use ok that in \<open>auto simp: step_simps\<close>)
  show ?thesis
  proof (cases "h_phase (handlers w ! i)")
    case (Awaiting_semaphore params)
    with ex Cancel i loc[of "Rejected CancelledError"] show ?thesis by (simp add: exec_def)
  next
    case (Streaming request_id params k background)
    with ex Cancel i loc[of "Raised request_id CancelledError" request_id] show ?thesis
      by (simp add: exec_def)
  next
    case (Generating request_id params k)
    with ex Cancel i loc[of "Raised request_id CancelledError" request_id] show ?thesis
      by (simp add: exec_def)
  qed (use ex Cancel i in \<open>simp_all add: exec_def\<close>)
next
  case (Background_task i)
  with ex have i: "i < length (handlers w)" by (simp add: exec_def split: if_splits)
  from ex Background_task i obtain request_id t ts where
    ph: "h_phase (handlers w ! i) = Background request_id (t # ts)"
    and w': "w' = background_step i (handlers w ! i) request_id t ts w"
    by (auto simp: exec_def split: phase.splits list.splits)
  from background_step_inv[OF inv i ph] w' show ?thesis by simp
qed

lemma run_inv: "worker_inv E w \<Longrightarrow> run E evs w = Some w' \<Longrightarrow> worker_inv E w'"
proof (induction evs arbitrary: w)
  case Nil
  then show ?case by simp
next
  case (Cons ev evs)
  from Cons.prems(2) obtain w1 where e: "exec E ev w = Some w1" and r: "run E evs w1 = Some w'"
    by (auto split: option.splits)
  from Cons.IH[OF exec_inv[OF Cons.prems(1) e] r] show ?case .
qed

lemma reachable_inv: "run E evs init_worker = Some w \<Longrightarrow> worker_inv E w"
  using worker_inv_init by (rule run_inv)

lemma exec_semaphore:
  assumes "exec E ev w = Some w'"
  shows "semaphore w' = semaphore w
       \<or> semaphore w' = semaphore (fst (acquire_worker_semaphore E w))
       \<or> (\<exists>w1. release_worker_semaphore w = Inr w1 \<and> semaphore w' = semaphore w1)"
proof (cases ev)
  case (Request ep params)
  with assms show ?thesis by (auto simp: exec_def)
next
  case (Acquire i)
  with assms show ?thesis
    by (auto simp: exec_def admit_def set_handler_def random_uuid_def Let_def
             split: if_splits phase.splits prod.splits bool.splits)
next
  case (Pull i)
  with assms show ?thesis
    by (auto simp: exec_def stream_step_def generate_step_def set_handler_def
             split: if_splits phase.splits prod.splits option.splits sum.splits)
next
  case (Disconnect i)
  with assms show ?thesis
    by (auto simp: exec_def set_handler_def split: if_splits phase.splits)
next
  case (Cancel i)
  with assms show ?thesis
    by (auto simp: exec_def set_handler_def split: if_splits phase.splits)
next
  case (Background_task i)
  with assms show ?thesis
    by (auto simp: exec_def background_step_def set_handler_def Let_def
             split: if_splits phase.splits list.splits task.splits sum.splits)
qed

lemma test_prompt: "get_conversation_prompt test_env test_body = Inr (py_str ''USER:Hi;BOT:;'')"
  by (simp add: get_conversation_prompt_def test_defs set_system_message_def append_message_def)

lemma test_limit: "limit_worker_concurrency test_env = 2"
  by (simp add: test_env_def)

lemma run_append:
  "run E (evs @ evs') w = (case run E evs w of None \<Rightarrow> None | Some w1 \<Rightarrow> run E evs' w1)"
  by (induction evs arbitrary: w) (simp_all split: option.splits)

lemma holding_semaphore:
  assumes inv: "worker_inv E w" and i: "i < length (handlers w)"
    and h: "holding (handlers w ! i)"
  shows "\<exists>v. semaphore w = Some v"
proof (cases "semaphore w")
  case None
  from i h have "filter holding (handlers w) \<noteq> []"
    by (auto simp: filter_empty_conv dest: nth_mem)
  then have "0 < holders w" by (simp add: holders_def)
  moreover from inv None have "limit_worker_concurrency E + holders w = limit_worker_concurrency E"
    by (simp add: worker_inv_def sem_value_def)
  ultimately show ?thesis by simp
qed simp

lemma exec_other:
  assumes "exec E ev w = Some w'" "i < length (handlers w)" "target ev \<noteq> Some i"
  shows "i < length (handlers w') \<and> handlers w' ! i = handlers w ! i"
proof (cases ev)
  case (Request ep params)
  with assms show ?thesis by (auto simp: exec_def nth_append)
next
  case (Acquire j)
  with assms show ?thesis
    by (auto simp: exec_def admit_def set_handler_def random_uuid_def Let_def
             acquire_worker_semaphore_def
             split: if_splits phase.splits prod.splits bool.splits)
next
  case (Pull j)
  with assms show ?thesis
    by (auto simp: exec_def stream_step_def generate_step_def set_handler_def
             release_worker_semaphore_def
             split: if_splits phase.splits prod.splits option.splits sum.splits)
next
  case (Disconnect j)
  with assms show ?thesis
    by (auto simp: exec_def set_handler_def split: if_splits phase.splits)
next
  case (Cancel j)
  with assms show ?thesis
    by (auto simp: exec_def set_handler_def split: if_splits phase.splits)
next
  case (Background_task j)
  with assms show ?thesis
    by (auto simp: exec_def background_step_def set_handler_def Let_def
             release_worker_semaphore_def
             split: if_splits phase.splits list.splits task.splits sum.splits option.splits)
qed

lemma exec_terminal:
  assumes "i < length (handlers w)" "terminal (h_phase (handlers w ! i))" "target ev = Some i"
  shows "exec E ev w = None"
  using assms by (cases ev; cases "h_phase (handlers w ! i)") (simp_all add: exec_def terminal_def)

lemma terminal_stays:
  assumes "run E evs w = Some w'" "i < length (handlers w)" "terminal (h_phase (handlers w ! i))"
  shows "i < length (handlers w') \<and> handlers w' ! i = handlers w ! i"
  using assms
proof (induction evs arbitrary: w)
  case Nil
  then show ?case by simp
next
  case (Cons ev evs)
  from Cons.prems(1) obtain w1 where e: "exec E ev w = Some w1" and r: "run E evs w1 = Some w'"
    by (auto split: option.splits)
  from e exec_terminal[OF Cons.prems(2,3), of ev E] have "target ev \<noteq> Some i" by auto
  from exec_other[OF e Cons.prems(2) this] have
    1: "i < length (handlers w1)" and 2: "handlers w1 ! i = handlers w ! i" by simp_all
  from Cons.IH[OF r 1] 2 Cons.prems(3) show ?case by simp
qed

lemma disconnect_cleanup:
  assumes inv: "worker_inv E w" and i: "i < length (handlers w)"
    and ph: "h_phase (handlers w ! i) = Streaming request_id params k background"
  shows "\<exists>w'. run E [Disconnect i, Background_task i, Background_task i] w = Some w'
           \<and> h_phase (handlers w' ! i) = Finished request_id
           \<and> aborted w' = aborted w @ [request_id]
           \<and> count_list (aborted w') request_id = 1
           \<and> h_released (handlers w' ! i) = 1
           \<and> h_sent (handlers w' ! i) = h_sent (handlers w ! i)
           \<and> sem_value E w' = sem_value E w + 1"
proof -
  from worker_inv_handler[OF inv i] ph have ok:
    "h_acquired (handlers w ! i) = 1" "h_released (handlers w ! i) = 0"
    "count_list (aborted w) request_id = 0"
    "background = [Release_worker_semaphore, Abort_request request_id]"
    by (simp_all add: handler_ok.simps create_background_tasks_def)
  then have "holding (handlers w ! i)" by (simp add: holding_def)
  from holding_semaphore[OF inv i this] obtain v where v: "semaphore w = Some v" by blast
  from i ph ok v show ?thesis
    by (simp add: exec_def set_handler_def background_step_def release_worker_semaphore_def
          sem_value_def)
qed

lemma stream_end_cleanup:
  assumes inv: "worker_inv E w" and i: "i < length (handlers w)"
    and ph: "h_phase (handlers w ! i) = Streaming request_id params k background"
    and g: "generate_stream E params = (frames, None)" and k: "\<not> k < length frames"
  shows "\<exists>w'. run E [Pull i, Background_task i, Background_task i] w = Some w'
           \<and> h_phase (handlers w' ! i) = Finished request_id
           \<and> aborted w' = aborted w @ [request_id]
           \<and> count_list (aborted w') request_id = 1
           \<and> h_released (handlers w' ! i) = 1
           \<and> h_sent (handlers w' ! i) = h_sent (handlers w ! i)
           \<and> sem_value E w' = sem_value E w + 1"
proof -
  from worker_inv_handler[OF inv i] ph have ok:
    "h_acquired (handlers w ! i) = 1" "h_released (handlers w ! i) = 0"
    "count_list (aborted w) request_id = 0"
    "background = [Release_worker_semaphore, Abort_request request_id]"
    by (simp_all add: handler_ok.simps create_background_tasks_def)
  then have "holding (handlers w ! i)" by (simp add: holding_def)
  from holding_semaphore[OF inv i this] obtain v where v: "semaphore w = Some v" by blast
  from i ph ok v g k show ?thesis
    by (simp add: exec_def stream_step_def set_handler_def background_step_def
          release_worker_semaphore_def sem_value_def)
qed

lemma generate_cleanup:
  assumes inv: "worker_inv E w" and i: "i < length (handlers w)"
    and ph: "h_phase (handlers w ! i) = Generating request_id params k"
    and k: "\<not> k < length (fst (generate_stream E params))"
    and g: "generate E params = Inr out"
  shows "\<exists>w'. exec E (Pull i) w = Some w'
           \<and> h_phase (handlers w' ! i) = Finished request_id
           \<and> h_response (handlers w' ! i) = Some out
           \<and> aborted w' = aborted w @ [request_id]
           \<and> count_list (aborted w') request_id = 1
           \<and> h_released (handlers w' ! i) = 1
           \<and> sem_value E w' = sem_value E w + 1"
proof -
  from worker_inv_handler[OF inv i] ph have ok:
    "h_acquired (handlers w ! i) = 1" "h_released (handlers w ! i) = 0"
    "count_list (aborted w) request_id = 0"
    by (simp_all add: handler_ok.simps)
  then have "holding (handlers w ! i)" by (simp add: holding_def)
  from holding_semaphore[OF inv i this] obtain v where v: "semaphore w = Some v" by blast
  from i ph ok v k g show ?thesis
    by (simp add: exec_def set_handler_def generate_step_def release_worker_semaphore_def
          sem_value_def)
qed

lemma finished_once:
  assumes r: "run E evs init_worker = Some w" and i: "i < length (handlers w)"
    and ph: "h_phase (handlers w ! i) = Finished request_id"
    and r': "run E evs' w = Some w'"
  shows "count_list (aborted w') request_id = 1"
proof -
  from ph have "terminal (h_phase (handlers w ! i))" by (simp add: terminal_def)
  from terminal_stays[OF r' i this] ph have
    i': "i < length (handlers w')" and ph': "h_phase (handlers w' ! i) = Finished request_id"
    by simp_all
  from r r' have "run E (evs @ evs') init_worker = Some w'" by (simp add: run_append)
  then have "worker_inv E w'" by (rule reachable_inv)
  from worker_inv_handler[OF this i'] ph' show ?thesis by (simp add: handler_ok.simps)
qed

lemma test_stream:
  "generate_stream test_env test_params
     = ([json_dumps_ret (py_str ''USER:Hi;BOT:;Hel'') @ [CHR 0x00],
         json_dumps_ret (py_str ''USER:Hi;BOT:;Hello'') @ [CHR 0x00]], None)"
  by (simp add: generate_stream_def setup_defs test_defs text_outputs_def frame_def)

lemma failing_stream:
  "generate_stream failing_env test_params
     = ([json_dumps_ret (py_str ''USER:Hi;BOT:;Hel'') @ [CHR 0x00]], Some EngineError)"
  by (simp add: generate_stream_def setup_defs test_defs text_outputs_def frame_def)

lemma failing_prompt: "get_conversation_prompt failing_env test_body = Inr (py_str ''USER:Hi;BOT:;'')"
  by (simp add: get_conversation_prompt_def test_defs set_system_message_def append_message_def)

lemma failing_limit: "limit_worker_concurrency failing_env = 1"
  by (simp add: failing_env_def)

lemmas machine_defs =
  exec_def new_handler_def admit_def acquire_worker_semaphore_def random_uuid_def
  set_handler_def stream_step_def generate_step_def background_step_def
  release_worker_semaphore_def create_background_tasks_def init_worker_def

lemma sampling_error_raises:
  assumes inv: "worker_inv E w" and i: "i < length (handlers w)"
    and s: "sampling_setup E params = Inl e"
    and ph: "h_phase (handlers w ! i) = Generating request_id params k
             \<or> (\<exists>bg. h_phase (handlers w ! i) = Streaming request_id params k bg)"
  shows "\<exists>w'. exec E (Pull i) w = Some w'
           \<and> h_phase (handlers w' ! i) = Raised request_id e
           \<and> h_acquired (handlers w' ! i) = 1"
proof -
  from s have g: "generate_stream E params = ([], Some e)" by (simp add: generate_stream_def)
  then have g': "generate E params = Inl e" by (simp add: generate_def)
  from worker_inv_handler[OF inv i] ph have "h_acquired (handlers w ! i) = 1"
    by (auto simp: handler_ok.simps)
  with ph i g g' show ?thesis
    by (auto simp: exec_def stream_step_def generate_step_def set_handler_def)
qed

lemma raised_keeps_slot:
  assumes r: "run E evs init_worker = Some w" and i: "i < length (handlers w)"
    and ph: "h_phase (handlers w ! i) = Raised request_id e"
    and r': "run E evs' w = Some w'"
  shows "h_phase (handlers w' ! i) = Raised request_id e \<and> h_released (handlers w' ! i) = 0
       \<and> holding (handlers w' ! i) \<and> sem_value E w' < limit_worker_concurrency E"
proof -
  from ph have "terminal (h_phase (handlers w ! i))" by (simp add: terminal_def)
  from terminal_stays[OF r' i this] ph have
    i': "i < length (handlers w')" and ph': "h_phase (handlers w' ! i) = Raised request_id e"
    by simp_all
  from r r' have "run E (evs @ evs') init_worker = Some w'" by (simp add: run_append)
  then have inv: "worker_inv E w'" by (rule reachable_inv)
  from worker_inv_handler[OF inv i'] ph' have c: "h_released (handlers w' ! i) = 0"
    "holding (handlers w' ! i)" by (simp_all add: handler_ok.simps holding_def)
  with i' have "filter holding (handlers w') \<noteq> []"
    by (auto simp: filter_empty_conv dest: nth_mem)
  then have "0 < holders w'" by (simp add: holders_def)
  with inv have "sem_value E w' < limit_worker_concurrency E" by (simp add: worker_inv_def)
  with ph' c show ?thesis by simp
qed

section \<open>The claims about the admission slots\<close>

text \<open>
  Claim C1. In every state the worker can reach from its start, under any interleaving
  of requests that succeed, fail, are cancelled or lose their client, the number of
  handlers holding a slot is at most the capacity (it is the capacity less the counter
  of the semaphore); and whenever a step changes the semaphore, the new value is the one
  \<^verbatim>\<open>acquire_worker_semaphore\<close> or \<^verbatim>\<open>release_worker_semaphore\<close> computes.
\<close>

theorem slots_never_exceed_capacity:
  assumes "run E evs init_worker = Some w"
  shows "holders w \<le> limit_worker_concurrency E
       \<and> sem_value E w + holders w = limit_worker_concurrency E
       \<and> (\<forall>ev w'. exec E ev w = Some w' \<longrightarrow>
             semaphore w' = semaphore w
             \<or> semaphore w' = semaphore (fst (acquire_worker_semaphore E w))
             \<or> (\<exists>w1. release_worker_semaphore w = Inr w1 \<and> semaphore w' = semaphore w1))"
proof -
  from assms have "worker_inv E w" by (rule reachable_inv)
  then have "sem_value E w + holders w = limit_worker_concurrency E"
    by (simp add: worker_inv_def)
  then show ?thesis using exec_semaphore[of E _ w] by auto
qed

theorem slots_never_exceed_capacity_witness:
  "\<exists>w. run test_env
          [Request Worker_generate_stream test_body, Request Worker_generate test_body,
           Request Worker_generate test_body, Acquire 0, Acquire (Suc 0), Acquire (Suc (Suc 0))]
          init_worker = Some w
       \<and> holders w = 2 \<and> holders w \<le> limit_worker_concurrency test_env"
proof -
  let ?evs = "[Request Worker_generate_stream test_body, Request Worker_generate test_body,
           Request Worker_generate test_body, Acquire 0, Acquire (Suc 0), Acquire (Suc (Suc 0))]"
  have "\<exists>w. run test_env ?evs init_worker = Some w \<and> holders w = 2"
    by (simp add: exec_def new_handler_def test_prompt admit_def acquire_worker_semaphore_def
          random_uuid_def set_handler_def init_worker_def create_background_tasks_def
          holders_def holding_def test_limit)
  then obtain w where r: "run test_env ?evs init_worker = Some w" and h: "holders w = 2" by blast
  from slots_never_exceed_capacity[OF r] h r show ?thesis by blast
qed

text \<open>
  Claim C4. In every reachable state: when the client of a streaming request hangs up,
  or its stream ends normally, the background tasks run: the slot is released first and
  then \<^verbatim>\<open>engine.abort\<close> is called with the id of that request, after which the id has been
  aborted exactly once; when \<^verbatim>\<open>generate\<close> returns on the non-streaming endpoint, the slot
  is released, the id is aborted once and the output is the response; and for a handler
  that has finished, the id stays aborted exactly once and the slot released once
  whatever happens later. (A handler that an exception ends runs neither step: see C2.)
\<close>

theorem abort_once_with_release:
  assumes "run E evs init_worker = Some w" and "i < length (handlers w)"
  shows "(\<forall>request_id params k background.
            h_phase (handlers w ! i) = Streaming request_id params k background \<longrightarrow>
            (\<exists>w'. run E [Disconnect i, Background_task i, Background_task i] w = Some w'
               \<and> h_phase (handlers w' ! i) = Finished request_id
               \<and> aborted w' = aborted w @ [request_id]
               \<and> count_list (aborted w') request_id = 1
               \<and> h_released (handlers w' ! i) = 1
               \<and> h_sent (handlers w' ! i) = h_sent (handlers w ! i)
               \<and> sem_value E w' = sem_value E w + 1))
       \<and> (\<forall>request_id params k background frames.
            h_phase (handlers w ! i) = Streaming request_id params k background \<longrightarrow>
            generate_stream E params = (frames, None) \<longrightarrow> \<not> k < length frames \<longrightarrow>
            (\<exists>w'. run E [Pull i, Background_task i, Background_task i] w = Some w'
               \<and> h_phase (handlers w' ! i) = Finished request_id
               \<and> aborted w' = aborted w @ [request_id]
               \<and> count_list (aborted w') request_id = 1
               \<and> h_released (handlers w' ! i) = 1
               \<and> h_sent (handlers w' ! i) = h_sent (handlers w ! i)
               \<and> sem_value E w' = sem_value E w + 1))
       \<and> (\<forall>request_id params k out.
            h_phase (handlers w ! i) = Generating request_id params k \<longrightarrow>
            \<not> k < length (fst (generate_stream E params)) \<longrightarrow>
            generate E params = Inr out \<longrightarrow>
            (\<exists>w'. exec E (Pull i) w = Some w'
               \<and> h_phase (handlers w' ! i) = Finished request_id
               \<and> h_response (handlers w' ! i) = Some out
               \<and> aborted w' = aborted w @ [request_id]
               \<and> count_list (aborted w') request_id = 1
               \<and> h_released (handlers w' ! i) = 1
               \<and> sem_value E w' = sem_value E w + 1))
       \<and> (\<forall>request_id evs' w'.
            h_phase (handlers w ! i) = Finished request_id \<longrightarrow>
            run E evs' w = Some w' \<longrightarrow>
            count_list (aborted w') request_id = 1 \<and> h_released (handlers w' ! i) = 1)"
proof -
  from assms(1) have inv: "worker_inv E w" by (rule reachable_inv)
  note i = assms(2)
  have 1: "\<exists>w'. run E [Disconnect i, Background_task i, Background_task i] w = Some w'
               \<and> h_phase (handlers w' ! i) = Finished request_id
               \<and> aborted w' = aborted w @ [request_id]
               \<and> count_list (aborted w') request_id = 1
               \<and> h_released (handlers w' ! i) = 1
               \<and> h_sent (handlers w' ! i) = h_sent (handlers w ! i)
               \<and> sem_value E w' = sem_value E w + 1"
    if "h_phase (handlers w ! i) = Streaming request_id params k background"
    for request_id params k background
    using inv i that by (rule disconnect_cleanup)
  have fin: "\<exists>w'. run E [Pull i, Background_task i, Background_task i] w = Some w'
               \<and> h_phase (handlers w' ! i) = Finished request_id
               \<and> aborted w' = aborted w @ [request_id]
               \<and> count_list (aborted w') request_id = 1
               \<and> h_released (handlers w' ! i) = 1
               \<and> h_sent (handlers w' ! i) = h_sent (handlers w ! i)
               \<and> sem_value E w' = sem_value E w + 1"
    if "h_phase (handlers w ! i) = Streaming request_id params k background"
      "generate_stream E params = (frames, None)" "\<not> k < length frames"
    for request_id params k background frames
    using inv i that by (rule stream_end_cleanup)
  have 2: "\<exists>w'. exec E (Pull i) w = Some w'
               \<and> h_phase (handlers w' ! i) = Finished request_id
               \<and> h_response (handlers w' ! i) = Some out
               \<and> aborted w' = aborted w @ [request_id]
               \<and> count_list (aborted w') request_id = 1
               \<and> h_released (handlers w' ! i) = 1
               \<and> sem_value E w' = sem_value E w + 1"
    if "h_phase (handlers w ! i) = Generating request_id params k"
      "\<not> k < length (fst (generate_stream E params))" "generate E params = Inr out"
    for request_id params k out
    using inv i that by (rule generate_cleanup)
  have 3: "count_list (aborted w') request_id = 1 \<and> h_released (handlers w' ! i) = 1"
    if ph: "h_phase (handlers w ! i) = Finished request_id" and r': "run E evs' w = Some w'"
    for request_id evs' w'
  proof -
    from ph have t: "terminal (h_phase (handlers w ! i))" by (simp add: terminal_def)
    from terminal_stays[OF r' i t] have s: "handlers w' ! i = handlers w ! i" by simp
    from worker_inv_handler[OF inv i] ph have "h_released (handlers w ! i) = 1"
      by (simp add: handler_ok.simps)
    with s finished_once[OF assms(1) i ph r'] show ?thesis by simp
  qed
  from 1 fin 2 3 show ?thesis by blast
qed

theorem abort_once_with_release_witness:
  "\<exists>w w'. run test_env [Request Worker_generate_stream test_body, Acquire 0, Pull 0] init_worker = Some w
       \<and> run test_env [Disconnect 0, Background_task 0, Background_task 0] w = Some w'
       \<and> length (h_sent (handlers w' ! 0)) = 1
       \<and> aborted w' = [PInt 0]
       \<and> count_list (aborted w') (PInt 0) = 1
       \<and> h_released (handlers w' ! 0) = 1
       \<and> sem_value test_env w' = 2"
proof -
  let ?evs = "[Request Worker_generate_stream test_body, Acquire 0, Pull 0]"
  have "\<exists>w. run test_env ?evs init_worker = Some w \<and> 0 < length (handlers w)
          \<and> (\<exists>p bg. h_phase (handlers w ! 0) = Streaming (PInt 0) p 1 bg)
          \<and> aborted w = [] \<and> length (h_sent (handlers w ! 0)) = 1 \<and> sem_value test_env w = 1"
    by (simp add: machine_defs test_prompt test_limit test_params_def[symmetric] test_stream
          sem_value_def)
  then obtain w p bg where r: "run test_env ?evs init_worker = Some w"
    and i: "0 < length (handlers w)"
    and ph: "h_phase (handlers w ! 0) = Streaming (PInt 0) p 1 bg"
    and w: "aborted w = []" "length (h_sent (handlers w ! 0)) = 1" "sem_value test_env w = 1"
    by blast
  from abort_once_with_release[OF r i] ph obtain w' where
    "run test_env [Disconnect 0, Background_task 0, Background_task 0] w = Some w'"
    "aborted w' = aborted w @ [PInt 0]" "count_list (aborted w') (PInt 0) = 1"
    "h_released (handlers w' ! 0) = 1" "h_sent (handlers w' ! 0) = h_sent (handlers w ! 0)"
    "sem_value test_env w' = sem_value test_env w + 1"
    by blast
  with r w show ?thesis by auto
qed

text \<open>
  Claim C2 asks that the slot of an admitted request be released exactly once on every
  exit path, an engine error included. The code releases it after \<^verbatim>\<open>worker.generate\<close> has
  returned (line 181) and in a background task of the streaming response (line 140), so
  an exception skips the release on both endpoints: with one slot and an engine that
  raises after its first output, each endpoint ends with the slot acquired once, released
  never, and the counter of the semaphore at 0. By \<open>raised_keeps_slot\<close> it stays so.
\<close>

theorem slot_leaked_on_engine_error:
  "run failing_env [Request Worker_generate test_body, Acquire 0, Pull 0, Pull 0] init_worker
     = Some \<lparr>semaphore = Some 0, uuid_count = 1,
             handlers = [\<lparr>h_endpoint = Worker_generate,
                          h_phase = Raised (PInt 0) EngineError,
                          h_acquired = 1, h_released = 0, h_sent = [], h_response = None\<rparr>],
             aborted = []\<rparr>
   \<and> run failing_env [Request Worker_generate_stream test_body, Acquire 0, Pull 0, Pull 0] init_worker
     = Some \<lparr>semaphore = Some 0, uuid_count = 1,
             handlers = [\<lparr>h_endpoint = Worker_generate_stream,
                          h_phase = Raised (PInt 0) EngineError,
                          h_acquired = 1, h_released = 0,
                          h_sent = [json_dumps_ret (py_str ''USER:Hi;BOT:;Hel'') @ [CHR 0x00]],
                          h_response = None\<rparr>],
             aborted = []\<rparr>"
  by (simp add: machine_defs failing_prompt failing_limit test_params_def[symmetric]
        failing_stream generate_def)

text \<open>
  Claim C5 says that a request with a malformed sampling configuration is rejected
  before admission. The code converts \<^verbatim>\<open>temperature\<close> and \<^verbatim>\<open>top_p\<close> inside
  \<^verbatim>\<open>generate_stream\<close> (lines 72 and 73), after the acquire of line 176: a request with
  \<^verbatim>\<open>"temperature": null\<close> acquires a slot and raises \<^verbatim>\<open>TypeError\<close> afterwards.
\<close>

theorem malformed_temperature_admitted:
  "py_float test_env PNone = Inl TypeError
   \<and> run test_env [Request Worker_generate (test_body(''temperature'' \<mapsto> PNone)), Acquire 0, Pull 0]
         init_worker
     = Some \<lparr>semaphore = Some 1, uuid_count = 1,
             handlers = [\<lparr>h_endpoint = Worker_generate,
                          h_phase = Raised (PInt 0) TypeError,
                          h_acquired = 1, h_released = 0, h_sent = [], h_response = None\<rparr>],
             aborted = []\<rparr>"
proof -
  have p: "get_conversation_prompt test_env (test_body(''temperature'' \<mapsto> PNone))
      = Inr (py_str ''USER:Hi;BOT:;'')"
    by (simp add: get_conversation_prompt_def test_defs set_system_message_def append_message_def)
  have s: "sampling_setup test_env
      (test_body(''temperature'' \<mapsto> PNone, ''prompt'' \<mapsto> PStr (py_str ''USER:Hi;BOT:;''),
                 ''request_id'' \<mapsto> PInt 0)) = Inl TypeError"
    by (simp add: setup_defs test_body_def)
  then have g: "generate_stream test_env
      (test_body(''temperature'' \<mapsto> PNone, ''prompt'' \<mapsto> PStr (py_str ''USER:Hi;BOT:;''),
                 ''request_id'' \<mapsto> PInt 0)) = ([], Some TypeError)"
    by (simp add: generate_stream_def)
  show ?thesis
    by (simp add: machine_defs p test_limit g generate_def)
qed

text \<open>
  Claim C5 as the code has it. In every reachable state: a request whose prompt cannot be
  built is rejected when it arrives, with the semaphore and the number of held slots
  unchanged and no slot acquired by it; a request whose prompt can be built waits for a
  slot whatever its sampling values are; and an error of the sampling configuration is
  raised by the first step of the generator, when the handler has acquired its slot.
\<close>

theorem prompt_checked_before_admission:
  assumes "run E evs init_worker = Some w"
  shows "(\<forall>ep params e. get_conversation_prompt E params = Inl e \<longrightarrow>
            (\<exists>w'. exec E (Request ep params) w = Some w'
               \<and> semaphore w' = semaphore w \<and> holders w' = holders w
               \<and> h_phase (handlers w' ! length (handlers w)) = Rejected e
               \<and> h_acquired (handlers w' ! length (handlers w)) = 0))
       \<and> (\<forall>ep params prompt. get_conversation_prompt E params = Inr prompt \<longrightarrow>
            (\<exists>w'. exec E (Request ep params) w = Some w'
               \<and> semaphore w' = semaphore w
               \<and> h_phase (handlers w' ! length (handlers w))
                   = Awaiting_semaphore (params(''prompt'' \<mapsto> PStr prompt))))
       \<and> (\<forall>i request_id params k e. i < length (handlers w) \<longrightarrow>
            sampling_setup E params = Inl e \<longrightarrow>
            (h_phase (handlers w ! i) = Generating request_id params k
             \<or> (\<exists>bg. h_phase (handlers w ! i) = Streaming request_id params k bg)) \<longrightarrow>
            (\<exists>w'. exec E (Pull i) w = Some w'
               \<and> h_phase (handlers w' ! i) = Raised request_id e
               \<and> h_acquired (handlers w' ! i) = 1))"
proof -
  from assms have inv: "worker_inv E w" by (rule reachable_inv)
  have 1: "\<exists>w'. exec E (Request ep params) w = Some w'
               \<and> semaphore w' = semaphore w \<and> holders w' = holders w
               \<and> h_phase (handlers w' ! length (handlers w)) = Rejected e
               \<and> h_acquired (handlers w' ! length (handlers w)) = 0"
    if "get_conversation_prompt E params = Inl e" for ep params e
    using that by (simp add: exec_def new_handler_def holders_def holding_def)
  have 2: "\<exists>w'. exec E (Request ep params) w = Some w'
               \<and> semaphore w' = semaphore w
               \<and> h_phase (handlers w' ! length (handlers w))
                   = Awaiting_semaphore (params(''prompt'' \<mapsto> PStr prompt))"
    if "get_conversation_prompt E params = Inr prompt" for ep params prompt
    using that by (simp add: exec_def new_handler_def)
  have 3: "\<exists>w'. exec E (Pull i) w = Some w'
               \<and> h_phase (handlers w' ! i) = Raised request_id e
               \<and> h_acquired (handlers w' ! i) = 1"
    if "i < length (handlers w)" "sampling_setup E params = Inl e"
      "h_phase (handlers w ! i) = Generating request_id params k
             \<or> (\<exists>bg. h_phase (handlers w ! i) = Streaming request_id params k bg)"
    for i request_id params k e
    using inv that by (rule sampling_error_raises)
  from 1 2 3 show ?thesis by blast
qed

theorem prompt_checked_before_admission_witness:
  "\<exists>w'. exec test_env (Request Worker_generate (test_body(''messages'' := None))) init_worker = Some w'
      \<and> semaphore w' = None
      \<and> h_phase (handlers w' ! 0) = Rejected KeyError
      \<and> h_acquired (handlers w' ! 0) = 0"
proof -
  have r: "run test_env [] init_worker = Some init_worker" by simp
  have p: "get_conversation_prompt test_env (test_body(''messages'' := None)) = Inl KeyError"
    by (simp add: get_conversation_prompt_def test_defs)
  from prompt_checked_before_admission[OF r] p obtain w' where
    "exec test_env (Request Worker_generate (test_body(''messages'' := None))) init_worker = Some w'"
    "semaphore w' = semaphore init_worker"
    "h_phase (handlers w' ! length (handlers init_worker)) = Rejected KeyError"
    "h_acquired (handlers w' ! length (handlers init_worker)) = 0"
    by blast
  then show ?thesis by (auto simp: init_worker_def)
qed

end
